theory Spec2Isabelle
  imports Main "HOL-Library.Word" "HOL-Library.Char_ord" "HOL-Library.List_Lexorder"
    "HOL-Library.Multiset"
begin

section \<open>The federation fetch endpoint (pkg/api/federation.go)\<close>

text \<open>
  The development embeds \<^verbatim>\<open>federationServer.fetch\<close>: the normalisation of the
  request's region lists, the storage criteria, the per-record filter, the grouping of
  the surviving records into the nested response, and the loop that polls the context
  between two records.

  Go strings are byte strings; \<^typ>\<open>string\<close> is a list of bytes, ordered
  lexicographically byte by byte as Go's \<^verbatim>\<open><\<close> on strings is.
  \<^verbatim>\<open>int64\<close> timestamps and \<^verbatim>\<open>int32\<close> interval fields are only copied and
  compared, never computed with, so they are integers; the one conversion of the source,
  \<^verbatim>\<open>int32(inf.DiagnosisStatus)\<close>, is written out.
\<close>

subsection \<open>Library functions used by fetch\<close>

text \<open>
  \<^verbatim>\<open>strings.ToUpper\<close> belongs to the Go library, which maps every letter of
  Unicode and rewrites invalid UTF-8. fetch only applies it to the entries of the two
  region lists, so it is a parameter \<open>ToUpper\<close> of the functions below, and what is
  proved holds for every such function. \<open>asciiUpper\<close> is the function on strings of
  ASCII bytes, where \<^verbatim>\<open>strings.ToUpper\<close> maps the letters a..z to A..Z and keeps
  every other byte; the examples, whose regions are ASCII, use it.
\<close>

definition upper_char :: "char \<Rightarrow> char" where
  "upper_char c =
     (if CHR ''a'' \<le> c \<and> c \<le> CHR ''z'' then char_of (of_char c - (32::nat)) else c)"

definition asciiUpper :: "string \<Rightarrow> string" where
  "asciiUpper s = map upper_char s"

text \<open>\<^verbatim>\<open>strings.Join(elems, sep)\<close>.\<close>

fun Join :: "string list \<Rightarrow> string \<Rightarrow> string" where
  "Join [] sep = []"
| "Join [x] sep = x"
| "Join (x # y # ys) sep = x @ sep @ Join (y # ys) sep"

text \<open>\<^verbatim>\<open>sort.Strings\<close>: ascending, by Go's string order.\<close>

definition sort_Strings :: "string list \<Rightarrow> string list" where
  "sort_Strings xs = sort xs"

text \<open>The verb \<^verbatim>\<open>%d\<close> of \<^verbatim>\<open>fmt.Sprintf\<close>: a signed decimal numeral.\<close>

fun decimal :: "nat \<Rightarrow> string" where
  "decimal n =
     (if n < 10 then [''0123456789'' ! n]
      else decimal (n div 10) @ [''0123456789'' ! (n mod 10)])"

declare decimal.simps [simp del]

definition fmt_d :: "int \<Rightarrow> string" where
  "fmt_d i = (if i < 0 then CHR ''-'' # decimal (nat (- i)) else decimal (nat i))"

text \<open>
  \<^verbatim>\<open>time.Time\<close> as nanoseconds since the epoch; \<^verbatim>\<open>time.Unix(sec, nsec)\<close> builds a
  time, \<^verbatim>\<open>t.Unix()\<close> reads its seconds (rounded down).
\<close>

type_synonym Time = int

definition time_Unix :: "int \<Rightarrow> int \<Rightarrow> Time" where
  "time_Unix sec nsec = sec * 1000000000 + nsec"

definition Unix :: "Time \<Rightarrow> int" where
  "Unix t = t div 1000000000"

text \<open>The conversion \<^verbatim>\<open>int32(x)\<close> of a Go \<^verbatim>\<open>int\<close>: the low 32 bits, read signed.\<close>

definition int32 :: "int \<Rightarrow> int" where
  "int32 x = (x + 2147483648) mod 4294967296 - 2147483648"

subsection \<open>Data model\<close>

text \<open>
  \<^verbatim>\<open>model.Infection\<close>, \<^verbatim>\<open>database.FetchInfectionsCriteria\<close> and the \<^verbatim>\<open>pb\<close>
  messages are declared in packages that fetch imports; the records below have the
  fields fetch reads and writes, under the source's names (a suffix tells apart fields
  that two messages share).
\<close>

record Infection =
  K :: string
  DiagnosisKey :: "8 word list"
  Regions :: "string list"
  LocalProvenance :: bool
  DiagnosisStatus :: int
  VerificationAuthorityName :: string
  IntervalNumber :: int
  IntervalCount :: int
  CreatedAt :: Time

record FederationFetchRequest =
  RegionIdentifiers :: "string list"
  ExcludeRegionIdentifiers :: "string list"
  LastFetchResponseKeyTimestamp :: int
  NextFetchToken_req :: string

record FetchInfectionsCriteria =
  IncludeRegions :: "string list"
  SinceTimestamp :: Time
  UntilTimestamp :: Time
  LastCursor :: string
  OnlyLocalProvenance :: bool

record pb_DiagnosisKey =
  DiagnosisKey_pb :: "8 word list"
  IntervalNumber_pb :: int
  IntervalCount_pb :: int

record ContactTracingInfo =
  DiagnosisStatus_pb :: int
  VerificationAuthorityName_pb :: string
  DiagnosisKeys :: "pb_DiagnosisKey list"

record ContactTracingResponse =
  RegionIdentifiers_pb :: "string list"
  ContactTracingInfo :: "ContactTracingInfo list"

record FederationFetchResponse =
  Response :: "ContactTracingResponse list"
  FetchResponseKeyTimestamp :: int
  PartialResponse :: bool
  NextFetchToken :: string

text \<open>
  \<^verbatim>\<open>database.InfectionIterator\<close> is an interface over a cursor into the storage
  engine. An iterator is its two methods over a state of the engine: \<^verbatim>\<open>Next\<close>
  returns \<^verbatim>\<open>(inf, done, err)\<close> and moves on, \<^verbatim>\<open>Cursor\<close> returns
  \<^verbatim>\<open>(cursor, err)\<close>. A nil pointer and a nil error are \<open>None\<close>.
\<close>

record 'it InfectionIterator =
  Next :: "'it \<Rightarrow> (Infection option \<times> bool \<times> string option) \<times> 'it"
  Cursor :: "'it \<Rightarrow> string \<times> string option"

text \<open>
  The context is polled once at the head of every iteration and never blocks.
  \<open>ctx n\<close> is what the poll of iteration \<open>n\<close> (counted from 0) sees: \<open>None\<close> while
  \<^verbatim>\<open>ctx.Done()\<close> is open, \<open>Some e\<close> once it is closed and \<^verbatim>\<open>ctx.Err()\<close> is \<open>e\<close>.
\<close>

datatype ctx_err = DeadlineExceeded | Canceled | OtherErr string

type_synonym Context = "nat \<Rightarrow> ctx_err option"

text \<open>The four \<^verbatim>\<open>fmt.Errorf\<close> results of fetch, each with the error it wraps.\<close>

datatype fetch_error =
    QueryingInfections string
  | ContextError ctx_err
  | GeneratingCursor string
  | IteratingResults string

subsection \<open>Normalisation and criteria (lines 53 to 87)\<close>

text \<open>
  The two loops overwrite the request's slices in place; \<open>uppercaseRegions ToUpper req\<close> is the
  request as the caller sees it afterwards, and as the rest of fetch reads it.
\<close>

definition uppercaseRegions ::
  "(string \<Rightarrow> string) \<Rightarrow> FederationFetchRequest \<Rightarrow> FederationFetchRequest" where
  "uppercaseRegions ToUpper req =
     req\<lparr>RegionIdentifiers := map ToUpper (RegionIdentifiers req),
         ExcludeRegionIdentifiers := map ToUpper (ExcludeRegionIdentifiers req)\<rparr>"

text \<open>
  The criteria of a request whose lists are already in upper case. \<open>IncludeRegions\<close> is
  a nil slice unless exactly one region is requested.
\<close>

definition criteria :: "FederationFetchRequest \<Rightarrow> Time \<Rightarrow> FetchInfectionsCriteria" where
  "criteria req fetchUntil =
     (let c = \<lparr>IncludeRegions = [],
               SinceTimestamp = time_Unix (LastFetchResponseKeyTimestamp req) 0,
               UntilTimestamp = fetchUntil,
               LastCursor = NextFetchToken_req req,
               OnlyLocalProvenance = True\<rparr>
      in if length (RegionIdentifiers req) = 1
         then c\<lparr>IncludeRegions := RegionIdentifiers req\<rparr>
         else c)"

text \<open>The two \<^verbatim>\<open>map[string]struct{}\<close> are sets of regions.\<close>

definition includedRegions :: "FederationFetchRequest \<Rightarrow> string set" where
  "includedRegions req = set (RegionIdentifiers req)"

definition excludedRegions :: "FederationFetchRequest \<Rightarrow> string set" where
  "excludedRegions req = set (ExcludeRegionIdentifiers req)"

subsection \<open>The filter (lines 134 to 188)\<close>

text \<open>
  A record is dropped at the first test it fails, with a debug message; \<open>skip\<close> names
  the six messages.
\<close>

datatype skip =
    MissingDiagnosisKey
  | MissingRegions
  | NotLocalProvenance
  | InvalidDiagnosisStatus
  | OnlyExcludedRegions
  | NoRequestedRegions

text \<open>The loop of lines 161 to 168: \<open>skip\<close> stays true until a region is not excluded.\<close>

fun onlyExcluded :: "string set \<Rightarrow> string list \<Rightarrow> bool" where
  "onlyExcluded excluded [] = True"
| "onlyExcluded excluded (region # rs) =
     (if region \<notin> excluded then False else onlyExcluded excluded rs)"

text \<open>The loop of lines 177 to 183: \<open>skip\<close> stays true until a region is included.\<close>

fun noneIncluded :: "string set \<Rightarrow> string list \<Rightarrow> bool" where
  "noneIncluded included [] = True"
| "noneIncluded included (region # rs) =
     (if region \<in> included then False else noneIncluded included rs)"

text \<open>
  \<open>names\<close> is the table \<^verbatim>\<open>pb.DiagnosisStatus_name\<close> of the generated protocol code,
  from the numbers of the enumeration to their names.
\<close>

definition skipReason ::
  "(int \<rightharpoonup> string) \<Rightarrow> string set \<Rightarrow> string set \<Rightarrow> Infection \<Rightarrow> skip option" where
  "skipReason names included excluded infn =
     (if length (DiagnosisKey infn) = 0 then Some MissingDiagnosisKey
      else if length (Regions infn) = 0 then Some MissingRegions
      else if \<not> LocalProvenance infn then Some NotLocalProvenance
      else if names (int32 (DiagnosisStatus infn)) = None then Some InvalidDiagnosisStatus
      else if onlyExcluded excluded (Regions infn) then Some OnlyExcludedRegions
      else if included \<noteq> {} \<and> noneIncluded included (Regions infn)
        then Some NoRequestedRegions
      else None)"

subsection \<open>The grouping (lines 190 to 220)\<close>

text \<open>
  \<open>ctrMap\<close> and \<open>ctiMap\<close> hold pointers into the response under assembly. A
  \<^verbatim>\<open>*pb.ContactTracingResponse\<close> is stored in \<open>ctrMap\<close> and appended to
  \<open>response.Response\<close> when it is created, and nowhere else; the sequence only grows, so
  the pointer is the position of the entry in \<open>Response\<close>. A \<^verbatim>\<open>*pb.ContactTracingInfo\<close>
  is likewise stored in \<open>ctiMap\<close> and appended to the \<open>ContactTracingInfo\<close> of one
  entry: the pointer is the position of that entry and the position within it.
\<close>

record collator =
  ctrMap :: "string \<rightharpoonup> nat"
  ctiMap :: "string \<rightharpoonup> nat \<times> nat"
  response :: FederationFetchResponse

definition ctrKey_of :: "Infection \<Rightarrow> string" where
  "ctrKey_of infn = Join (sort_Strings (Regions infn)) ''::''"

definition Sprintf_ctiKey :: "string \<Rightarrow> int \<Rightarrow> string \<Rightarrow> string" where
  "Sprintf_ctiKey ctrKey status authority =
     ctrKey @ ''::'' @ fmt_d status @ ''::'' @ authority"

definition ctiKey_of :: "Infection \<Rightarrow> string" where
  "ctiKey_of infn =
     Sprintf_ctiKey (ctrKey_of infn) (int32 (DiagnosisStatus infn)) (VerificationAuthorityName infn)"

text \<open>Lines 193 to 198: find, or create, the entry for the sorted regions.\<close>

definition findOrCreateCtr :: "collator \<Rightarrow> string \<Rightarrow> string list \<Rightarrow> collator \<times> nat" where
  "findOrCreateCtr c ctrKey regions =
     (case ctrMap c ctrKey of
        Some ctr \<Rightarrow> (c, ctr)
      | None \<Rightarrow>
          (let ctr = length (Response (response c))
           in (c\<lparr>ctrMap := (ctrMap c)(ctrKey \<mapsto> ctr),
                 response := (response c)\<lparr>Response := Response (response c) @
                   [\<lparr>RegionIdentifiers_pb = regions, ContactTracingInfo = []\<rparr>]\<rparr>\<rparr>,
               ctr)))"

text \<open>Writing through a pointer to an entry of the response.\<close>

definition updateCtr ::
  "nat \<Rightarrow> (ContactTracingResponse \<Rightarrow> ContactTracingResponse) \<Rightarrow>
   FederationFetchResponse \<Rightarrow> FederationFetchResponse" where
  "updateCtr ctr f r = r\<lparr>Response := (Response r)[ctr := f (Response r ! ctr)]\<rparr>"

definition updateCti ::
  "nat \<times> nat \<Rightarrow> (ContactTracingInfo \<Rightarrow> ContactTracingInfo) \<Rightarrow>
   FederationFetchResponse \<Rightarrow> FederationFetchResponse" where
  "updateCti cti f r =
     updateCtr (fst cti)
       (\<lambda>x. x\<lparr>ContactTracingInfo :=
              (ContactTracingInfo x)[snd cti := f (ContactTracingInfo x ! snd cti)]\<rparr>) r"

text \<open>Lines 203 to 208: find, or create, the info for \<open>ctiKey\<close> under the entry \<open>ctr\<close>.\<close>

definition findOrCreateCti ::
  "collator \<Rightarrow> string \<Rightarrow> nat \<Rightarrow> int \<Rightarrow> string \<Rightarrow> collator \<times> nat \<times> nat" where
  "findOrCreateCti c ctiKey ctr status authority =
     (case ctiMap c ctiKey of
        Some cti \<Rightarrow> (c, cti)
      | None \<Rightarrow>
          (let cti = (ctr, length (ContactTracingInfo (Response (response c) ! ctr)))
           in (c\<lparr>ctiMap := (ctiMap c)(ctiKey \<mapsto> cti),
                 response := updateCtr ctr
                   (\<lambda>x. x\<lparr>ContactTracingInfo := ContactTracingInfo x @
                      [\<lparr>DiagnosisStatus_pb = status,
                        VerificationAuthorityName_pb = authority,
                        DiagnosisKeys = []\<rparr>]\<rparr>)
                   (response c)\<rparr>,
               cti)))"

definition diagnosisKey_of :: "Infection \<Rightarrow> pb_DiagnosisKey" where
  "diagnosisKey_of infn =
     \<lparr>DiagnosisKey_pb = DiagnosisKey infn,
      IntervalNumber_pb = IntervalNumber infn,
      IntervalCount_pb = IntervalCount infn\<rparr>"

text \<open>Lines 190 to 220, for a record that passed the filter.\<close>

definition collate :: "collator \<Rightarrow> Infection \<Rightarrow> collator" where
  "collate c infn =
     (let regions = sort_Strings (Regions infn);
          ctrKey = Join regions ''::'';
          (c1, ctr) = findOrCreateCtr c ctrKey regions;
          status = int32 (DiagnosisStatus infn);
          ctiKey = Sprintf_ctiKey ctrKey status (VerificationAuthorityName infn);
          (c2, cti) = findOrCreateCti c1 ctiKey ctr status (VerificationAuthorityName infn);
          r = updateCti cti
                (\<lambda>x. x\<lparr>DiagnosisKeys := DiagnosisKeys x @ [diagnosisKey_of infn]\<rparr>)
                (response c2);
          created = Unix (CreatedAt infn)
      in c2\<lparr>response :=
              (if created > FetchResponseKeyTimestamp r
               then r\<lparr>FetchResponseKeyTimestamp := created\<rparr> else r)\<rparr>)"

subsection \<open>The loop (lines 98 to 221)\<close>

text \<open>How one run of the loop body ends.\<close>

datatype 'a flow = Return fetch_error | Break | Continue 'a

definition body ::
  "Context \<Rightarrow> 'it InfectionIterator \<Rightarrow> (int \<rightharpoonup> string) \<Rightarrow> string set \<Rightarrow> string set \<Rightarrow>
   nat \<Rightarrow> 'it \<Rightarrow> collator \<Rightarrow> ('it \<times> collator) flow" where
  "body ctx it names included excluded n s c =
     (case ctx n of
        Some err \<Rightarrow>
          if err \<noteq> DeadlineExceeded \<and> err \<noteq> Canceled then Return (ContextError err)
          else (case Cursor it s of
                  (cursor, Some err) \<Rightarrow> Return (GeneratingCursor err)
                | (cursor, None) \<Rightarrow>
                    Continue (s, c\<lparr>response :=
                      (response c)\<lparr>PartialResponse := True, NextFetchToken := cursor\<rparr>\<rparr>))
      | None \<Rightarrow>
          (case Next it s of
             ((infn, done, Some err), s') \<Rightarrow> Return (IteratingResults err)
           | ((infn, done, None), s') \<Rightarrow>
               if done then Break
               else (case infn of
                       None \<Rightarrow> Continue (s', c)
                     | Some i \<Rightarrow>
                         (case skipReason names included excluded i of
                            Some reason \<Rightarrow> Continue (s', c)
                          | None \<Rightarrow> Continue (s', collate c i)))))"

text \<open>
  The loop may run for ever (an iterator that is never done under a context that is
  never cancelled): \<open>None\<close> is the call that does not return.
\<close>

partial_function (option) loop ::
  "Context \<Rightarrow> 'it InfectionIterator \<Rightarrow> (int \<rightharpoonup> string) \<Rightarrow> string set \<Rightarrow> string set \<Rightarrow>
   nat \<Rightarrow> 'it \<Rightarrow> collator \<Rightarrow> (fetch_error + FederationFetchResponse) option" where
  "loop ctx it names included excluded n s c =
     (if PartialResponse (response c) then Some (Inr (response c))
      else (case body ctx it names included excluded n s c of
              Return err \<Rightarrow> Some (Inl err)
            | Break \<Rightarrow> Some (Inr (response c))
            | Continue (s', c') \<Rightarrow> loop ctx it names included excluded (Suc n) s' c'))"

declare loop.simps [code]

subsection \<open>fetch\<close>

definition emptyResponse :: FederationFetchResponse where
  "emptyResponse =
     \<lparr>Response = [], FetchResponseKeyTimestamp = 0, PartialResponse = False,
      NextFetchToken = []\<rparr>"

definition emptyCollator :: collator where
  "emptyCollator = \<lparr>ctrMap = Map.empty, ctiMap = Map.empty, response = emptyResponse\<rparr>"

text \<open>
  \<open>itFunc\<close> opens the iterator: an error, or the iterator and its first state.
\<close>

definition fetch ::
  "(string \<Rightarrow> string) \<Rightarrow> (int \<rightharpoonup> string) \<Rightarrow> Context \<Rightarrow> FederationFetchRequest \<Rightarrow>
   (FetchInfectionsCriteria \<Rightarrow> string + 'it InfectionIterator \<times> 'it) \<Rightarrow> Time \<Rightarrow>
   (fetch_error + FederationFetchResponse) option" where
  "fetch ToUpper names ctx req0 itFunc fetchUntil =
     (let req = uppercaseRegions ToUpper req0
      in case itFunc (criteria req fetchUntil) of
           Inl err \<Rightarrow> Some (Inl (QueryingInfections err))
         | Inr (it, s) \<Rightarrow>
             loop ctx it names (includedRegions req) (excludedRegions req) 0 s emptyCollator)"

subsection \<open>An iterator over a list\<close>

text \<open>
  An iterator that replays a list of results of \<^verbatim>\<open>Next\<close> and is done after the
  last one; its state is the rest of the list and the number of results handed out,
  and \<open>cur\<close> gives the result of \<^verbatim>\<open>Cursor\<close> at each position.
\<close>

type_synonym next_result = "Infection option \<times> bool \<times> string option"

definition listIterator ::
  "(nat \<Rightarrow> string \<times> string option) \<Rightarrow> (next_result list \<times> nat) InfectionIterator" where
  "listIterator cur =
     \<lparr>Next = (\<lambda>(xs, k). case xs of
                 [] \<Rightarrow> ((None, True, None), ([], k))
               | x # xs' \<Rightarrow> (x, (xs', Suc k))),
      Cursor = (\<lambda>(xs, k). cur k)\<rparr>"

subsection \<open>The run of a call\<close>

text \<open>
  The vocabulary in which the behaviour of the loop is stated. \<open>stateAfter it s k\<close> is
  the state of the iterator after \<open>k\<close> calls of \<^verbatim>\<open>Next\<close>, \<open>nextResult it s k\<close>
  what the next call returns there, and \<open>yielded it s k\<close> the records (nil results left
  out) that the first \<open>k\<close> calls returned, in order.
\<close>

primrec stateAfter :: "'it InfectionIterator \<Rightarrow> 'it \<Rightarrow> nat \<Rightarrow> 'it" where
  "stateAfter it s 0 = s"
| "stateAfter it s (Suc k) = stateAfter it (snd (Next it s)) k"

definition nextResult :: "'it InfectionIterator \<Rightarrow> 'it \<Rightarrow> nat \<Rightarrow> next_result" where
  "nextResult it s k = fst (Next it (stateAfter it s k))"

primrec yielded :: "'it InfectionIterator \<Rightarrow> 'it \<Rightarrow> nat \<Rightarrow> Infection list" where
  "yielded it s 0 = []"
| "yielded it s (Suc k) =
     (case fst (fst (Next it s)) of None \<Rightarrow> [] | Some infn \<Rightarrow> [infn]) @
     yielded it (snd (Next it s)) k"

text \<open>
  \<open>runs ctx it n s k\<close>: from poll \<open>n\<close> and iterator state \<open>s\<close>, each of the next \<open>k\<close>
  iterations finds the context open and gets from \<^verbatim>\<open>Next\<close> neither an error nor the
  end of the results. The signal, the end or an error is then met at iteration
  \<open>n + k\<close> at the earliest.
\<close>

primrec runs :: "Context \<Rightarrow> 'it InfectionIterator \<Rightarrow> nat \<Rightarrow> 'it \<Rightarrow> nat \<Rightarrow> bool" where
  "runs ctx it n s 0 = True"
| "runs ctx it n s (Suc k) =
     (ctx n = None \<and>
      (case Next it s of ((infn, done, err), s') \<Rightarrow>
         \<not> done \<and> err = None \<and> runs ctx it (Suc n) s' k))"

text \<open>The records that pass the filter, and the grouping of a list of records.\<close>

definition eligible :: "(int \<rightharpoonup> string) \<Rightarrow> string set \<Rightarrow> string set \<Rightarrow> Infection \<Rightarrow> bool" where
  "eligible names included excluded infn = (skipReason names included excluded infn = None)"

definition collateAll :: "collator \<Rightarrow> Infection list \<Rightarrow> collator" where
  "collateAll c infns = foldl collate c infns"

text \<open>
  The records of the first \<open>k\<close> iterations that pass the filter of the request, and the
  response assembled from them.
\<close>

definition includedRecords ::
  "(string \<Rightarrow> string) \<Rightarrow> (int \<rightharpoonup> string) \<Rightarrow> FederationFetchRequest \<Rightarrow> 'it InfectionIterator \<Rightarrow> 'it \<Rightarrow> nat \<Rightarrow>
   Infection list" where
  "includedRecords ToUpper names req it s k =
     filter (eligible names (includedRegions (uppercaseRegions ToUpper req))
                      (excludedRegions (uppercaseRegions ToUpper req)))
       (yielded it s k)"

definition assembled :: "Infection list \<Rightarrow> FederationFetchResponse" where
  "assembled infns = response (collateAll emptyCollator infns)"

subsection \<open>Example calls\<close>

text \<open>A table of two status numbers, a few records, requests, contexts and iterators.\<close>

definition exampleNames :: "int \<rightharpoonup> string" where
  "exampleNames = [0 \<mapsto> ''STATUS0'', 1 \<mapsto> ''STATUS1'', 2 \<mapsto> ''STATUS2'']"

definition mkInfection ::
  "8 word list \<Rightarrow> string list \<Rightarrow> int \<Rightarrow> string \<Rightarrow> int \<Rightarrow> Infection" where
  "mkInfection key regions status authority created =
     \<lparr>K = ''k'', DiagnosisKey = key, Regions = regions, LocalProvenance = True,
      DiagnosisStatus = status, VerificationAuthorityName = authority,
      IntervalNumber = 100, IntervalCount = 144,
      CreatedAt = time_Unix created 0\<rparr>"

definition infUSCA :: Infection where
  "infUSCA = mkInfection [1] [''US'', ''CA''] 1 ''AAA'' 5"

definition infCAUS :: Infection where
  "infCAUS = mkInfection [2] [''CA'', ''US''] 1 ''AAA'' 7"

definition infMX :: Infection where
  "infMX = mkInfection [3] [''MX''] 1 ''AAA'' 6"

definition infNoKey :: Infection where
  "infNoKey = mkInfection [] [''US''] 1 ''AAA'' 9"

definition infOld :: Infection where
  "infOld = mkInfection [4] [''US''] 1 ''AAA'' (- 5)"

definition infBadStatus :: Infection where
  "infBadStatus = mkInfection [10] [''US''] 4294967297 ''AAA'' 8"

definition mkRequest :: "string list \<Rightarrow> string list \<Rightarrow> FederationFetchRequest" where
  "mkRequest regions exclude =
     \<lparr>RegionIdentifiers = regions, ExcludeRegionIdentifiers = exclude,
      LastFetchResponseKeyTimestamp = 0, NextFetchToken_req = []\<rparr>"

definition neverDone :: Context where
  "neverDone n = None"

definition doneFrom :: "nat \<Rightarrow> ctx_err \<Rightarrow> Context" where
  "doneFrom m err n = (if m \<le> n then Some err else None)"

definition cursorAt :: "nat \<Rightarrow> string \<times> string option" where
  "cursorAt k = (replicate k (CHR ''+''), None)"

definition cursorEmpty :: "nat \<Rightarrow> string \<times> string option" where
  "cursorEmpty k = ([], None)"

definition cursorFails :: "nat \<Rightarrow> string \<times> string option" where
  "cursorFails k = ([], Some ''no cursor'')"

definition okRecord :: "Infection \<Rightarrow> next_result" where
  "okRecord infn = (Some infn, False, None)"

definition nilRecord :: next_result where
  "nilRecord = (None, False, None)"

definition nextFails :: next_result where
  "nextFails = (None, False, Some ''lost connection'')"

definition openList ::
  "(nat \<Rightarrow> string \<times> string option) \<Rightarrow> next_result list \<Rightarrow> FetchInfectionsCriteria \<Rightarrow>
   string + (next_result list \<times> nat) InfectionIterator \<times> (next_result list \<times> nat)" where
  "openList cur results c = Inr (listIterator cur, (results, 0))"

text \<open>An \<open>itFunc\<close> that fails with the regions of the criteria it is given.\<close>

definition openEcho ::
  "FetchInfectionsCriteria \<Rightarrow>
   string + (next_result list \<times> nat) InfectionIterator \<times> (next_result list \<times> nat)" where
  "openEcho c = Inl (Join (IncludeRegions c) '','')"

definition openFails ::
  "FetchInfectionsCriteria \<Rightarrow>
   string + (next_result list \<times> nat) InfectionIterator \<times> (next_result list \<times> nat)" where
  "openFails c = Inl ''no datastore''"

subsection \<open>The response under assembly, observed\<close>

text \<open>
  The entries of the response, the three changes that \<open>collate\<close> makes to them, and
  what can be read off them: the regions of the entry at a position, the status and
  authority of its infos, the keys of an info, and the two map keys that go with them.
\<close>

definition ctrs :: "collator \<Rightarrow> ContactTracingResponse list" where
  "ctrs c = Response (response c)"

definition addCtr :: "string list \<Rightarrow> ContactTracingResponse list \<Rightarrow> ContactTracingResponse list" where
  "addCtr regions xs = xs @ [\<lparr>RegionIdentifiers_pb = regions, ContactTracingInfo = []\<rparr>]"

definition addCti ::
  "nat \<Rightarrow> int \<times> string \<Rightarrow> ContactTracingResponse list \<Rightarrow> ContactTracingResponse list" where
  "addCti p i xs =
     xs[p := (xs ! p)\<lparr>ContactTracingInfo := ContactTracingInfo (xs ! p) @
       [\<lparr>DiagnosisStatus_pb = fst i, VerificationAuthorityName_pb = snd i,
         DiagnosisKeys = []\<rparr>]\<rparr>]"

definition addKey ::
  "nat \<times> nat \<Rightarrow> pb_DiagnosisKey \<Rightarrow> ContactTracingResponse list \<Rightarrow>
   ContactTracingResponse list" where
  "addKey q d xs =
     xs[fst q := (xs ! fst q)\<lparr>ContactTracingInfo :=
       (ContactTracingInfo (xs ! fst q))[snd q :=
         (ContactTracingInfo (xs ! fst q) ! snd q)\<lparr>DiagnosisKeys :=
            DiagnosisKeys (ContactTracingInfo (xs ! fst q) ! snd q) @ [d]\<rparr>]\<rparr>]"

definition info_of :: "Infection \<Rightarrow> int \<times> string" where
  "info_of infn = (int32 (DiagnosisStatus infn), VerificationAuthorityName infn)"

text \<open>
  \<open>firstOf f xs\<close> keeps of \<open>xs\<close> the first element for every value of \<open>f\<close>.
\<close>

primrec firstOfAcc :: "('a \<Rightarrow> 'k) \<Rightarrow> 'k set \<Rightarrow> 'a list \<Rightarrow> 'a list" where
  "firstOfAcc f seen [] = []"
| "firstOfAcc f seen (x # xs) =
     (if f x \<in> seen then firstOfAcc f seen xs else x # firstOfAcc f (insert (f x) seen) xs)"

definition firstOf :: "('a \<Rightarrow> 'k) \<Rightarrow> 'a list \<Rightarrow> 'a list" where
  "firstOf f xs = firstOfAcc f {} xs"

definition regionsAt :: "ContactTracingResponse list \<Rightarrow> nat \<Rightarrow> string list" where
  "regionsAt xs p = RegionIdentifiers_pb (xs ! p)"

definition info_pb :: "ContactTracingInfo \<Rightarrow> int \<times> string" where
  "info_pb y = (DiagnosisStatus_pb y, VerificationAuthorityName_pb y)"

definition infosAt :: "ContactTracingResponse list \<Rightarrow> nat \<Rightarrow> (int \<times> string) list" where
  "infosAt xs p = map info_pb (ContactTracingInfo (xs ! p))"

definition keysAt :: "ContactTracingResponse list \<Rightarrow> nat \<Rightarrow> nat \<Rightarrow> pb_DiagnosisKey list" where
  "keysAt xs p j = DiagnosisKeys (ContactTracingInfo (xs ! p) ! j)"

definition keyAt :: "ContactTracingResponse list \<Rightarrow> nat \<Rightarrow> string" where
  "keyAt xs p = Join (regionsAt xs p) ''::''"

definition ctiKeyAt :: "ContactTracingResponse list \<Rightarrow> nat \<Rightarrow> nat \<Rightarrow> string" where
  "ctiKeyAt xs p j =
     Sprintf_ctiKey (keyAt xs p) (fst (infosAt xs p ! j)) (snd (infosAt xs p ! j))"

text \<open>
  The two maps point into the response: a key of \<open>ctrMap\<close> leads to the one entry with
  that key and every entry is reached from its key; likewise for \<open>ctiMap\<close> and the
  infos.
\<close>

definition wf3 ::
  "(string \<rightharpoonup> nat) \<Rightarrow> (string \<rightharpoonup> nat \<times> nat) \<Rightarrow> ContactTracingResponse list \<Rightarrow> bool" where
  "wf3 M N xs \<longleftrightarrow>
     (\<forall>k p. M k = Some p \<longrightarrow> p < length xs \<and> keyAt xs p = k) \<and>
     (\<forall>p < length xs. M (keyAt xs p) = Some p) \<and>
     (\<forall>k p j. N k = Some (p, j) \<longrightarrow>
        p < length xs \<and> j < length (infosAt xs p) \<and> ctiKeyAt xs p j = k) \<and>
     (\<forall>p j. p < length xs \<longrightarrow> j < length (infosAt xs p) \<longrightarrow>
        N (ctiKeyAt xs p j) = Some (p, j))"

definition wfc :: "collator \<Rightarrow> bool" where
  "wfc c = wf3 (ctrMap c) (ctiMap c) (ctrs c)"

text \<open>
  The order of the response, for the records \<open>F1\<close> that created an entry and the
  records \<open>F2\<close> that created an info; and the keys of every info, for the records
  \<open>rs\<close> collated so far.
\<close>

definition ord ::
  "Infection list \<Rightarrow> Infection list \<Rightarrow> ContactTracingResponse list \<Rightarrow> bool" where
  "ord F1 F2 xs \<longleftrightarrow>
     map RegionIdentifiers_pb xs = map (\<lambda>r. sort_Strings (Regions r)) F1 \<and>
     (\<forall>p < length xs.
        infosAt xs p = map info_of (filter (\<lambda>r. ctrKey_of r = keyAt xs p) F2))"

definition keyed :: "Infection list \<Rightarrow> ContactTracingResponse list \<Rightarrow> bool" where
  "keyed rs xs \<longleftrightarrow>
     (\<forall>p j. p < length xs \<longrightarrow> j < length (infosAt xs p) \<longrightarrow>
        keysAt xs p j =
          map diagnosisKey_of (filter (\<lambda>r. ctiKey_of r = ctiKeyAt xs p j) rs))"

definition grouped :: "Infection list \<Rightarrow> collator \<Rightarrow> bool" where
  "grouped rs c \<longleftrightarrow>
     wf3 (ctrMap c) (ctiMap c) (ctrs c) \<and>
     dom (ctrMap c) = ctrKey_of ` set rs \<and>
     dom (ctiMap c) = ctiKey_of ` set rs \<and>
     ord (firstOf ctrKey_of rs) (firstOf ctiKey_of rs) (ctrs c) \<and>
     keyed rs (ctrs c)"

section \<open>The response of a list of records\<close>

text \<open>The two map keys, read off an entry of the response and one of its infos.\<close>

definition ctrKey_pb :: "ContactTracingResponse \<Rightarrow> string" where
  "ctrKey_pb x = Join (RegionIdentifiers_pb x) ''::''"

definition ctiKey_pb :: "ContactTracingResponse \<Rightarrow> ContactTracingInfo \<Rightarrow> string" where
  "ctiKey_pb x y =
     Sprintf_ctiKey (ctrKey_pb x) (DiagnosisStatus_pb y) (VerificationAuthorityName_pb y)"

text \<open>All the keys of a response, entry by entry and info by info.\<close>

definition keysOf :: "ContactTracingResponse list \<Rightarrow> pb_DiagnosisKey list" where
  "keysOf xs = concat (map (\<lambda>x. concat (map DiagnosisKeys (ContactTracingInfo x))) xs)"

definition allKeys :: "FederationFetchResponse \<Rightarrow> pb_DiagnosisKey list" where
  "allKeys r = keysOf (Response r)"

text \<open>
  No two of the records give the same key of \<open>ctiMap\<close> from different keys of
  \<open>ctrMap\<close>.
\<close>

definition noCollision :: "Infection list \<Rightarrow> bool" where
  "noCollision rs \<longleftrightarrow>
     (\<forall>a \<in> set rs. \<forall>b \<in> set rs. ctiKey_of a = ctiKey_of b \<longrightarrow> ctrKey_of a = ctrKey_of b)"

text \<open>
  A record that names a region twice and one that names it once; and three records of
  which the first two give the same key of \<open>ctiMap\<close>, \<open>0::1::2::z\<close>, from different
  regions.
\<close>

definition infDup :: Infection where
  "infDup = mkInfection [5] [''US'', ''US''] 1 ''AAA'' 1"

definition infUS :: Infection where
  "infUS = mkInfection [6] [''US''] 1 ''AAA'' 2"

definition infX :: Infection where
  "infX = mkInfection [7] [''0''] 1 ''2::z'' 1"

definition infY :: Infection where
  "infY = mkInfection [8] [''0'', ''1''] 2 ''z'' 2"

definition infZ :: Infection where
  "infZ = mkInfection [9] [''1'', ''0''] 2 ''w'' 3"

section \<open>The loop, iteration by iteration\<close>

lemma collate_flags:
  "PartialResponse (response (collate c r)) = PartialResponse (response c)"
  "NextFetchToken (response (collate c r)) = NextFetchToken (response c)"
  unfolding collate_def findOrCreateCtr_def findOrCreateCti_def updateCti_def updateCtr_def Let_def
  by (simp_all split: option.splits prod.splits)

lemma collateAll_Nil: "collateAll c [] = c"
  by (simp add: collateAll_def)

lemma collateAll_Cons: "collateAll c (r # rs) = collateAll (collate c r) rs"
  by (simp add: collateAll_def)

lemma collateAll_snoc: "collateAll c (rs @ [r]) = collate (collateAll c rs) r"
  by (simp add: collateAll_def)

lemma collateAll_flags:
  "PartialResponse (response (collateAll c rs)) = PartialResponse (response c)"
  "NextFetchToken (response (collateAll c rs)) = NextFetchToken (response c)"
  by (induction rs arbitrary: c) (simp_all add: collate_flags collateAll_Nil collateAll_Cons)

lemma body_record:
  assumes "ctx n = None" and "Next it s = ((Some r, False, None), s')"
  shows "body ctx it names incl excl n s c =
         Continue (s', if eligible names incl excl r then collate c r else c)"
  using assms by (simp add: body_def eligible_def split: option.splits)

lemma body_nil:
  assumes "ctx n = None" and "Next it s = ((None, False, None), s')"
  shows "body ctx it names incl excl n s c = Continue (s', c)"
  using assms by (simp add: body_def)

lemma loop_step:
  assumes "\<not> PartialResponse (response c)" and "ctx n = None"
    and "Next it s = ((r, False, None), s')"
  shows "loop ctx it names incl excl n s c =
         loop ctx it names incl excl (Suc n) s'
           (collateAll c (filter (eligible names incl excl)
              (case r of None \<Rightarrow> [] | Some x \<Rightarrow> [x])))"
  using assms
  by (subst loop.simps) (simp add: body_def eligible_def collateAll_def split: option.splits)

lemma loop_runs:
  assumes "runs ctx it n s k" and "\<not> PartialResponse (response c)"
  shows "loop ctx it names incl excl n s c =
         loop ctx it names incl excl (n + k) (stateAfter it s k)
           (collateAll c (filter (eligible names incl excl) (yielded it s k)))"
  using assms
proof (induction k arbitrary: n s c)
  case 0
  then show ?case by (simp add: collateAll_Nil)
next
  case (Suc k)
  obtain r d e s' where nx: "Next it s = ((r, d, e), s')"
    by (metis prod.exhaust)
  with Suc.prems have c0: "ctx n = None" and d: "\<not> d" and e: "e = None"
    and rest: "runs ctx it (Suc n) s' k"
    by simp_all
  let ?c = "collateAll c (filter (eligible names incl excl)
              (case r of None \<Rightarrow> [] | Some x \<Rightarrow> [x]))"
  have "loop ctx it names incl excl n s c = loop ctx it names incl excl (Suc n) s' ?c"
    using loop_step [where c = c and ctx = ctx and n = n and it = it and s = s and r = r
        and s' = s' and names = names and incl = incl and excl = excl]
      Suc.prems(2) c0 nx d e by simp
  also have "\<dots> = loop ctx it names incl excl (Suc n + k) (stateAfter it s' k)
           (collateAll ?c (filter (eligible names incl excl) (yielded it s' k)))"
    using Suc.IH [OF rest] Suc.prems(2) by (simp add: collateAll_flags)
  finally show ?case
    using nx by (simp add: collateAll_def)
qed

text \<open>The five ways in which an iteration ends the loop.\<close>

lemma loop_done:
  assumes "\<not> PartialResponse (response c)" and "ctx n = None"
    and "Next it s = ((r, True, None), s')"
  shows "loop ctx it names incl excl n s c = Some (Inr (response c))"
  using assms by (subst loop.simps) (simp add: body_def)

lemma loop_next_error:
  assumes "\<not> PartialResponse (response c)" and "ctx n = None"
    and "Next it s = ((r, d, Some err), s')"
  shows "loop ctx it names incl excl n s c = Some (Inl (IteratingResults err))"
  using assms by (subst loop.simps) (simp add: body_def)

lemma loop_context_error:
  assumes "\<not> PartialResponse (response c)" and "ctx n = Some e"
    and "e \<noteq> DeadlineExceeded" and "e \<noteq> Canceled"
  shows "loop ctx it names incl excl n s c = Some (Inl (ContextError e))"
  using assms by (subst loop.simps) (simp add: body_def)

lemma loop_cursor_error:
  assumes "\<not> PartialResponse (response c)" and "ctx n = Some e"
    and "e = DeadlineExceeded \<or> e = Canceled" and "Cursor it s = (cursor, Some err)"
  shows "loop ctx it names incl excl n s c = Some (Inl (GeneratingCursor err))"
  using assms by (subst loop.simps) (auto simp add: body_def)

lemma loop_partial:
  assumes "\<not> PartialResponse (response c)" and "ctx n = Some e"
    and "e = DeadlineExceeded \<or> e = Canceled" and "Cursor it s = (cursor, None)"
  shows "loop ctx it names incl excl n s c =
         Some (Inr ((response c)\<lparr>PartialResponse := True, NextFetchToken := cursor\<rparr>))"
  using assms
  by (subst loop.simps, simp add: body_def, subst loop.simps) auto

lemma emptyCollator_flags:
  "\<not> PartialResponse (response emptyCollator)" "NextFetchToken (response emptyCollator) = []"
  by (simp_all add: emptyCollator_def emptyResponse_def)

lemma assembled_flags:
  "\<not> PartialResponse (assembled rs)" "NextFetchToken (assembled rs) = []"
  by (simp_all add: assembled_def collateAll_flags emptyCollator_flags)

lemma fetch_runs:
  assumes "itFunc (criteria (uppercaseRegions ToUpper req) fetchUntil) = Inr (it, s)"
    and "runs ctx it 0 s k"
  shows "fetch ToUpper names ctx req itFunc fetchUntil =
         loop ctx it names (includedRegions (uppercaseRegions ToUpper req))
           (excludedRegions (uppercaseRegions ToUpper req)) k (stateAfter it s k)
           (collateAll emptyCollator (includedRecords ToUpper names req it s k))"
  using assms loop_runs [OF assms(2) emptyCollator_flags(1)]
  by (simp add: fetch_def includedRecords_def Let_def)

lemma nextResult_Next:
  "nextResult it s k = x \<Longrightarrow> \<exists>s'. Next it (stateAfter it s k) = (x, s')"
  by (metis nextResult_def prod.collapse)

text \<open>The definitions unfolded when a call is evaluated on an example.\<close>

lemmas example_defs =
  exampleNames_def mkInfection_def infUSCA_def infCAUS_def infMX_def infNoKey_def infOld_def
  infBadStatus_def
  mkRequest_def neverDone_def doneFrom_def cursorAt_def cursorEmpty_def cursorFails_def
  okRecord_def
  nilRecord_def nextFails_def openList_def openFails_def listIterator_def

lemmas fetch_defs =
  uppercaseRegions_def criteria_def includedRegions_def excludedRegions_def
  skipReason_def eligible_def includedRecords_def assembled_def collateAll_def
  collate_def findOrCreateCtr_def findOrCreateCti_def updateCtr_def updateCti_def
  diagnosisKey_of_def Sprintf_ctiKey_def sort_Strings_def emptyCollator_def emptyResponse_def
  nextResult_def time_Unix_def Unix_def int32_def Let_def

section \<open>The claims\<close>

text \<open>
  C5. When the iterator reports the end of the results (at its call number \<open>k\<close>, the
  context being open at every poll up to there), fetch returns the response assembled
  from the records met so far, with \<open>PartialResponse\<close> false and an empty
  \<open>NextFetchToken\<close>. An iteration whose \<^verbatim>\<open>Next\<close> returns a nil record that is
  not the end is a no-op: the body continues with the collator unchanged, and the loop
  goes on from the next state.
\<close>

theorem natural_exhaustion:
  "(itFunc (criteria (uppercaseRegions ToUpper req) fetchUntil) = Inr (it, s) \<and>
    runs ctx it 0 s k \<and> ctx k = None \<and> nextResult it s k = (r, True, None) \<longrightarrow>
      fetch ToUpper names ctx req itFunc fetchUntil =
        Some (Inr (assembled (includedRecords ToUpper names req it s k))) \<and>
      \<not> PartialResponse (assembled (includedRecords ToUpper names req it s k)) \<and>
      NextFetchToken (assembled (includedRecords ToUpper names req it s k)) = []) \<and>
   (ctx n = None \<and> Next it t = ((None, False, None), t') \<longrightarrow>
      body ctx it names incl excl n t c = Continue (t', c) \<and>
      (\<not> PartialResponse (response c) \<longrightarrow>
         loop ctx it names incl excl n t c = loop ctx it names incl excl (Suc n) t' c))"
proof (intro conjI impI)
  assume a: "itFunc (criteria (uppercaseRegions ToUpper req) fetchUntil) = Inr (it, s) \<and>
    runs ctx it 0 s k \<and> ctx k = None \<and> nextResult it s k = (r, True, None)"
  then have "nextResult it s k = (r, True, None)" by simp
  from nextResult_Next [OF this]
  obtain s' where nx: "Next it (stateAfter it s k) = ((r, True, None), s')" by blast
  show "fetch ToUpper names ctx req itFunc fetchUntil =
        Some (Inr (assembled (includedRecords ToUpper names req it s k)))"
    using a fetch_runs [of itFunc ToUpper req fetchUntil it s ctx k names]
      loop_done [OF _ _ nx, of "collateAll emptyCollator (includedRecords ToUpper names req it s k)" ctx k]
    by (simp add: collateAll_flags emptyCollator_flags assembled_def)
next
  show "\<not> PartialResponse (assembled (includedRecords ToUpper names req it s k))"
    by (rule assembled_flags)
  show "NextFetchToken (assembled (includedRecords ToUpper names req it s k)) = []"
    by (rule assembled_flags)
next
  assume b: "ctx n = None \<and> Next it t = ((None, False, None), t')"
  then show "body ctx it names incl excl n t c = Continue (t', c)"
    by (simp add: body_nil)
  assume "\<not> PartialResponse (response c)"
  with b show "loop ctx it names incl excl n t c = loop ctx it names incl excl (Suc n) t' c"
    using loop_step [of c ctx n it t None t' names incl excl] by (simp add: collateAll_Nil)
qed

theorem natural_exhaustion_witness:
  "fetch asciiUpper exampleNames neverDone (mkRequest [] [])
     (openList cursorAt [okRecord infUSCA, nilRecord, okRecord infCAUS]) 0 =
   Some (Inr \<lparr>Response =
     [\<lparr>RegionIdentifiers_pb = [''CA'', ''US''],
       ContactTracingInfo =
         [\<lparr>DiagnosisStatus_pb = 1, VerificationAuthorityName_pb = ''AAA'',
           DiagnosisKeys =
             [\<lparr>DiagnosisKey_pb = [1], IntervalNumber_pb = 100, IntervalCount_pb = 144\<rparr>,
              \<lparr>DiagnosisKey_pb = [2], IntervalNumber_pb = 100, IntervalCount_pb = 144\<rparr>]\<rparr>]\<rparr>],
     FetchResponseKeyTimestamp = 7, PartialResponse = False, NextFetchToken = []\<rparr>)"
  using natural_exhaustion [of "openList cursorAt [okRecord infUSCA, nilRecord, okRecord infCAUS]" asciiUpper
      "mkRequest [] []" 0 "listIterator cursorAt"
      "([okRecord infUSCA, nilRecord, okRecord infCAUS], 0)" neverDone 3 None exampleNames]
  apply (simp add: example_defs fetch_defs numeral_3_eq_3 fmt_d_def)
  done

text \<open>
  C1. When the context is found done at poll \<open>k\<close> with the error deadline exceeded or
  cancelled, after \<open>k\<close> iterations that neither ended nor failed, and the iterator
  gives a cursor at that position, fetch returns the response assembled from the records
  of those \<open>k\<close> iterations alone, with \<open>PartialResponse\<close> true and that cursor as
  \<open>NextFetchToken\<close>. The token is the cursor whatever it is: fetch does not look at it.
\<close>

theorem deadline_partial:
  assumes "itFunc (criteria (uppercaseRegions ToUpper req) fetchUntil) = Inr (it, s)"
    and "runs ctx it 0 s k"
    and "ctx k = Some e" and "e = DeadlineExceeded \<or> e = Canceled"
    and "Cursor it (stateAfter it s k) = (cursor, None)"
  shows "fetch ToUpper names ctx req itFunc fetchUntil =
         Some (Inr ((assembled (includedRecords ToUpper names req it s k))
                      \<lparr>PartialResponse := True, NextFetchToken := cursor\<rparr>))"
  using fetch_runs [of itFunc ToUpper req fetchUntil it s ctx k names] assms(1,2)
    loop_partial [where c = "collateAll emptyCollator (includedRecords ToUpper names req it s k)"
      and ctx = ctx and n = k and e = e and it = it and s = "stateAfter it s k"
      and cursor = cursor] assms(3,4,5)
  by (simp add: collateAll_flags emptyCollator_flags assembled_def)

text \<open>A call cancelled after its first record, of three.\<close>

theorem deadline_partial_witness:
  "fetch asciiUpper exampleNames (doneFrom 1 DeadlineExceeded) (mkRequest [] [])
     (openList cursorAt [okRecord infUSCA, okRecord infMX, okRecord infCAUS]) 0 =
   Some (Inr \<lparr>Response =
     [\<lparr>RegionIdentifiers_pb = [''CA'', ''US''],
       ContactTracingInfo =
         [\<lparr>DiagnosisStatus_pb = 1, VerificationAuthorityName_pb = ''AAA'',
           DiagnosisKeys =
             [\<lparr>DiagnosisKey_pb = [1], IntervalNumber_pb = 100, IntervalCount_pb = 144\<rparr>]\<rparr>]\<rparr>],
     FetchResponseKeyTimestamp = 5, PartialResponse = True, NextFetchToken = ''+''\<rparr>)"
  using deadline_partial [of "openList cursorAt [okRecord infUSCA, okRecord infMX, okRecord infCAUS]" asciiUpper
      "mkRequest [] []" 0 "listIterator cursorAt"
      "([okRecord infUSCA, okRecord infMX, okRecord infCAUS], 0)"
      "doneFrom 1 DeadlineExceeded" 1 DeadlineExceeded "''+''" exampleNames]
  by (simp add: example_defs fetch_defs fmt_d_def)

text \<open>
  The signal fires after one record, before the end of the results. With an iterator
  whose cursor is the empty string the token of the partial response is empty; with one
  whose cursor fails there is no response at all.
\<close>

theorem deadline_partial_counterexample:
  "runs (doneFrom 1 Canceled) (listIterator cursorEmpty) 0
     ([okRecord infUSCA, okRecord infCAUS], 0) 1 \<and>
   doneFrom 1 Canceled 1 = Some Canceled \<and>
   fetch asciiUpper exampleNames (doneFrom 1 Canceled) (mkRequest [] [])
     (openList cursorEmpty [okRecord infUSCA, okRecord infCAUS]) 0 =
   Some (Inr \<lparr>Response =
     [\<lparr>RegionIdentifiers_pb = [''CA'', ''US''],
       ContactTracingInfo =
         [\<lparr>DiagnosisStatus_pb = 1, VerificationAuthorityName_pb = ''AAA'',
           DiagnosisKeys =
             [\<lparr>DiagnosisKey_pb = [1], IntervalNumber_pb = 100, IntervalCount_pb = 144\<rparr>]\<rparr>]\<rparr>],
     FetchResponseKeyTimestamp = 5, PartialResponse = True, NextFetchToken = []\<rparr>) \<and>
   fetch asciiUpper exampleNames (doneFrom 1 Canceled) (mkRequest [] [])
     (openList cursorFails [okRecord infUSCA, okRecord infCAUS]) 0 =
   Some (Inl (GeneratingCursor ''no cursor''))"
  by (simp add: fetch_def loop.simps body_def example_defs fetch_defs fmt_d_def)

text \<open>
  C6. Each fatal condition makes fetch return an error, which carries no response: the
  iterator that does not open; a failing \<^verbatim>\<open>Next\<close>; a failing \<^verbatim>\<open>Cursor\<close> when the
  context is done by deadline or cancellation; a context done with any other error.
  The last three are met at iteration \<open>k\<close>, after \<open>k\<close> iterations that neither ended
  nor failed. A record that the filter rejects (for whatever reason) does not end the
  call: the body continues with the collator unchanged and the loop goes on.
\<close>

theorem fatal_errors:
  "(itFunc (criteria (uppercaseRegions ToUpper req) fetchUntil) = Inl err \<longrightarrow>
      fetch ToUpper names ctx req itFunc fetchUntil = Some (Inl (QueryingInfections err))) \<and>
   (itFunc (criteria (uppercaseRegions ToUpper req) fetchUntil) = Inr (it, s) \<and> runs ctx it 0 s k \<longrightarrow>
      (ctx k = None \<and> nextResult it s k = (r, d, Some err) \<longrightarrow>
         fetch ToUpper names ctx req itFunc fetchUntil = Some (Inl (IteratingResults err))) \<and>
      (ctx k = Some e \<and> (e = DeadlineExceeded \<or> e = Canceled) \<and>
       Cursor it (stateAfter it s k) = (cursor, Some err) \<longrightarrow>
         fetch ToUpper names ctx req itFunc fetchUntil = Some (Inl (GeneratingCursor err))) \<and>
      (ctx k = Some e \<and> e \<noteq> DeadlineExceeded \<and> e \<noteq> Canceled \<longrightarrow>
         fetch ToUpper names ctx req itFunc fetchUntil = Some (Inl (ContextError e)))) \<and>
   (ctx n = None \<and> Next it t = ((Some infn, False, None), t') \<and>
    skipReason names incl excl infn = Some reason \<longrightarrow>
      body ctx it names incl excl n t c = Continue (t', c) \<and>
      (\<not> PartialResponse (response c) \<longrightarrow>
         loop ctx it names incl excl n t c = loop ctx it names incl excl (Suc n) t' c))"
proof (intro conjI impI)
  assume "itFunc (criteria (uppercaseRegions ToUpper req) fetchUntil) = Inl err"
  then show "fetch ToUpper names ctx req itFunc fetchUntil = Some (Inl (QueryingInfections err))"
    by (simp add: fetch_def)
next
  assume a: "itFunc (criteria (uppercaseRegions ToUpper req) fetchUntil) = Inr (it, s) \<and> runs ctx it 0 s k"
  let ?c = "collateAll emptyCollator (includedRecords ToUpper names req it s k)"
  have np: "\<not> PartialResponse (response ?c)"
    by (simp add: collateAll_flags emptyCollator_flags)
  have f: "fetch ToUpper names ctx req itFunc fetchUntil =
      loop ctx it names (includedRegions (uppercaseRegions ToUpper req))
        (excludedRegions (uppercaseRegions ToUpper req)) k (stateAfter it s k) ?c"
    using a fetch_runs [of itFunc ToUpper req fetchUntil it s ctx k names] by simp
  {
    assume b: "ctx k = None \<and> nextResult it s k = (r, d, Some err)"
    then have "nextResult it s k = (r, d, Some err)" by simp
    from nextResult_Next [OF this]
    obtain s' where "Next it (stateAfter it s k) = ((r, d, Some err), s')" by blast
    from loop_next_error [OF np _ this] b f
    show "fetch ToUpper names ctx req itFunc fetchUntil = Some (Inl (IteratingResults err))"
      by simp
  }
  {
    assume b: "ctx k = Some e \<and> (e = DeadlineExceeded \<or> e = Canceled) \<and>
       Cursor it (stateAfter it s k) = (cursor, Some err)"
    then have "loop ctx it names (includedRegions (uppercaseRegions ToUpper req))
        (excludedRegions (uppercaseRegions ToUpper req)) k (stateAfter it s k) ?c =
        Some (Inl (GeneratingCursor err))"
      using loop_cursor_error [where c = ?c and ctx = ctx and n = k and e = e and it = it
          and s = "stateAfter it s k" and cursor = cursor and err = err] np by simp
    with f show "fetch ToUpper names ctx req itFunc fetchUntil = Some (Inl (GeneratingCursor err))"
      by simp
  }
  {
    assume b: "ctx k = Some e \<and> e \<noteq> DeadlineExceeded \<and> e \<noteq> Canceled"
    then have "loop ctx it names (includedRegions (uppercaseRegions ToUpper req))
        (excludedRegions (uppercaseRegions ToUpper req)) k (stateAfter it s k) ?c =
        Some (Inl (ContextError e))"
      using loop_context_error [where c = ?c and ctx = ctx and n = k and e = e] np by simp
    with f show "fetch ToUpper names ctx req itFunc fetchUntil = Some (Inl (ContextError e))"
      by simp
  }
next
  assume b: "ctx n = None \<and> Next it t = ((Some infn, False, None), t') \<and>
    skipReason names incl excl infn = Some reason"
  then show "body ctx it names incl excl n t c = Continue (t', c)"
    by (simp add: body_def)
  assume "\<not> PartialResponse (response c)"
  with b show "loop ctx it names incl excl n t c = loop ctx it names incl excl (Suc n) t' c"
    using loop_step [of c ctx n it t "Some infn" t' names incl excl]
    by (simp add: collateAll_Nil eligible_def)
qed

text \<open>One call for each fatal condition, and a record without key that is passed over.\<close>

theorem fatal_errors_witness:
  "fetch asciiUpper exampleNames neverDone (mkRequest [] []) openFails 0 =
     Some (Inl (QueryingInfections ''no datastore'')) \<and>
   fetch asciiUpper exampleNames neverDone (mkRequest [] [])
     (openList cursorAt [okRecord infUSCA, nextFails, okRecord infCAUS]) 0 =
     Some (Inl (IteratingResults ''lost connection'')) \<and>
   fetch asciiUpper exampleNames (doneFrom 1 DeadlineExceeded) (mkRequest [] [])
     (openList cursorFails [okRecord infUSCA, okRecord infCAUS]) 0 =
     Some (Inl (GeneratingCursor ''no cursor'')) \<and>
   fetch asciiUpper exampleNames (doneFrom 1 (OtherErr ''closed'')) (mkRequest [] [])
     (openList cursorAt [okRecord infUSCA, okRecord infCAUS]) 0 =
     Some (Inl (ContextError (OtherErr ''closed''))) \<and>
   body neverDone (listIterator cursorAt) exampleNames {} {} 0
     ([okRecord infNoKey, okRecord infCAUS], 0) emptyCollator =
     Continue (([okRecord infCAUS], 1), emptyCollator)"
proof (intro conjI)
  show "fetch asciiUpper exampleNames neverDone (mkRequest [] []) openFails 0 =
     Some (Inl (QueryingInfections ''no datastore''))"
    using fatal_errors [of openFails asciiUpper "mkRequest [] []" 0 "''no datastore''" exampleNames neverDone]
    by (simp add: openFails_def)
  show "fetch asciiUpper exampleNames neverDone (mkRequest [] [])
     (openList cursorAt [okRecord infUSCA, nextFails, okRecord infCAUS]) 0 =
     Some (Inl (IteratingResults ''lost connection''))"
    using fatal_errors [of "openList cursorAt [okRecord infUSCA, nextFails, okRecord infCAUS]" asciiUpper
        "mkRequest [] []" 0 "''lost connection''" exampleNames neverDone
        "listIterator cursorAt" "([okRecord infUSCA, nextFails, okRecord infCAUS], 0)" 1
        None False]
    by (simp add: example_defs nextResult_def)
  show "fetch asciiUpper exampleNames (doneFrom 1 DeadlineExceeded) (mkRequest [] [])
     (openList cursorFails [okRecord infUSCA, okRecord infCAUS]) 0 =
     Some (Inl (GeneratingCursor ''no cursor''))"
    using fatal_errors [of "openList cursorFails [okRecord infUSCA, okRecord infCAUS]" asciiUpper
        "mkRequest [] []" 0 "''no cursor''" exampleNames "doneFrom 1 DeadlineExceeded"
        "listIterator cursorFails" "([okRecord infUSCA, okRecord infCAUS], 0)" 1
        None False DeadlineExceeded "[]"]
    by (simp add: example_defs nextResult_def)
  show "fetch asciiUpper exampleNames (doneFrom 1 (OtherErr ''closed'')) (mkRequest [] [])
     (openList cursorAt [okRecord infUSCA, okRecord infCAUS]) 0 =
     Some (Inl (ContextError (OtherErr ''closed'')))"
    using fatal_errors [of "openList cursorAt [okRecord infUSCA, okRecord infCAUS]" asciiUpper
        "mkRequest [] []" 0 "''x''" exampleNames "doneFrom 1 (OtherErr ''closed'')"
        "listIterator cursorAt" "([okRecord infUSCA, okRecord infCAUS], 0)" 1
        None False "OtherErr ''closed''" "[]"]
    by (simp add: example_defs nextResult_def)
  show "body neverDone (listIterator cursorAt) exampleNames {} {} 0
     ([okRecord infNoKey, okRecord infCAUS], 0) emptyCollator =
     Continue (([okRecord infCAUS], 1), emptyCollator)"
    using fatal_errors [of openFails asciiUpper "mkRequest [] []" 0 "''x''" exampleNames neverDone
        "listIterator cursorAt" "([okRecord infNoKey, okRecord infCAUS], 0)" 0
        None False DeadlineExceeded "[]" 0 "([okRecord infNoKey, okRecord infCAUS], 0)"
        infNoKey "([okRecord infCAUS], 1)" "{}" "{}" MissingDiagnosisKey emptyCollator]
    by (simp add: example_defs skipReason_def)
qed

text \<open>The two inner loops of the filter, and the seconds of a time built from seconds.\<close>

lemma onlyExcluded_iff: "onlyExcluded excluded rs \<longleftrightarrow> (\<forall>x\<in>set rs. x \<in> excluded)"
  by (induction rs) auto

lemma noneIncluded_iff: "noneIncluded included rs \<longleftrightarrow> (\<forall>x\<in>set rs. x \<notin> included)"
  by (induction rs) auto

lemma Unix_time_Unix: "Unix (time_Unix sec 0) = sec"
  by (simp add: Unix_def time_Unix_def)

text \<open>
  C7. Whatever function \<open>ToUpper\<close> is (in the code, \<^verbatim>\<open>strings.ToUpper\<close>), fetch
  first replaces every entry of both region lists of the request by its image under
  \<open>ToUpper\<close>. The criteria it then hands to \<open>itFunc\<close> have the request's last-fetch
  timestamp as \<open>SinceTimestamp\<close>, \<open>fetchUntil\<close> as \<open>UntilTimestamp\<close>, the request's
  token as \<open>LastCursor\<close>, \<open>OnlyLocalProvenance\<close> true, and a region filter exactly
  when one region is requested, which is then the image of that region. The loop
  filters with the sets of the images.
\<close>

theorem criteria_of_request:
  "RegionIdentifiers (uppercaseRegions ToUpper req) = map ToUpper (RegionIdentifiers req) \<and>
   ExcludeRegionIdentifiers (uppercaseRegions ToUpper req) =
     map ToUpper (ExcludeRegionIdentifiers req) \<and>
   SinceTimestamp (criteria (uppercaseRegions ToUpper req) fetchUntil) =
     time_Unix (LastFetchResponseKeyTimestamp req) 0 \<and>
   Unix (SinceTimestamp (criteria (uppercaseRegions ToUpper req) fetchUntil)) =
     LastFetchResponseKeyTimestamp req \<and>
   UntilTimestamp (criteria (uppercaseRegions ToUpper req) fetchUntil) = fetchUntil \<and>
   LastCursor (criteria (uppercaseRegions ToUpper req) fetchUntil) = NextFetchToken_req req \<and>
   OnlyLocalProvenance (criteria (uppercaseRegions ToUpper req) fetchUntil) \<and>
   (IncludeRegions (criteria (uppercaseRegions ToUpper req) fetchUntil) \<noteq> [] \<longleftrightarrow>
      length (RegionIdentifiers req) = 1) \<and>
   (RegionIdentifiers req = [region] \<longrightarrow>
      IncludeRegions (criteria (uppercaseRegions ToUpper req) fetchUntil) = [ToUpper region]) \<and>
   fetch ToUpper names ctx req itFunc fetchUntil =
     (case itFunc (criteria (uppercaseRegions ToUpper req) fetchUntil) of
        Inl err \<Rightarrow> Some (Inl (QueryingInfections err))
      | Inr (it, s) \<Rightarrow>
          loop ctx it names (set (map ToUpper (RegionIdentifiers req)))
            (set (map ToUpper (ExcludeRegionIdentifiers req))) 0 s emptyCollator)"
proof -
  have one: "length (RegionIdentifiers req) = 1 \<Longrightarrow> RegionIdentifiers req \<noteq> []"
    by auto
  have sets: "includedRegions (uppercaseRegions ToUpper req) = set (map ToUpper (RegionIdentifiers req))"
    "excludedRegions (uppercaseRegions ToUpper req) = set (map ToUpper (ExcludeRegionIdentifiers req))"
    by (simp_all add: includedRegions_def excludedRegions_def uppercaseRegions_def)
  have call: "fetch ToUpper names ctx req itFunc fetchUntil =
     (case itFunc (criteria (uppercaseRegions ToUpper req) fetchUntil) of
        Inl err \<Rightarrow> Some (Inl (QueryingInfections err))
      | Inr (it, s) \<Rightarrow>
          loop ctx it names (set (map ToUpper (RegionIdentifiers req)))
            (set (map ToUpper (ExcludeRegionIdentifiers req))) 0 s emptyCollator)"
    unfolding fetch_def Let_def sets by (rule refl)
  have fields: "RegionIdentifiers (uppercaseRegions ToUpper req) = map ToUpper (RegionIdentifiers req) \<and>
   ExcludeRegionIdentifiers (uppercaseRegions ToUpper req) =
     map ToUpper (ExcludeRegionIdentifiers req) \<and>
   SinceTimestamp (criteria (uppercaseRegions ToUpper req) fetchUntil) =
     time_Unix (LastFetchResponseKeyTimestamp req) 0 \<and>
   Unix (SinceTimestamp (criteria (uppercaseRegions ToUpper req) fetchUntil)) =
     LastFetchResponseKeyTimestamp req \<and>
   UntilTimestamp (criteria (uppercaseRegions ToUpper req) fetchUntil) = fetchUntil \<and>
   LastCursor (criteria (uppercaseRegions ToUpper req) fetchUntil) = NextFetchToken_req req \<and>
   OnlyLocalProvenance (criteria (uppercaseRegions ToUpper req) fetchUntil) \<and>
   (IncludeRegions (criteria (uppercaseRegions ToUpper req) fetchUntil) \<noteq> [] \<longleftrightarrow>
      length (RegionIdentifiers req) = 1) \<and>
   (RegionIdentifiers req = [region] \<longrightarrow>
      IncludeRegions (criteria (uppercaseRegions ToUpper req) fetchUntil) = [ToUpper region])"
    using one by (auto simp add: uppercaseRegions_def criteria_def Let_def Unix_time_Unix)
  from fields call show ?thesis by blast
qed

text \<open>
  A request for one region, written in lower case, with ASCII upper-casing: the criteria,
  the request after the call, and what \<open>itFunc\<close> is given when one and when two regions
  are requested.
\<close>

theorem criteria_of_request_witness:
  "criteria (uppercaseRegions asciiUpper (mkRequest [''us''] [''mx'', ''Ca''])) 1700000000000000000 =
     \<lparr>IncludeRegions = [''US''], SinceTimestamp = 0, UntilTimestamp = 1700000000000000000,
      LastCursor = [], OnlyLocalProvenance = True\<rparr> \<and>
   ExcludeRegionIdentifiers (uppercaseRegions asciiUpper (mkRequest [''us''] [''mx'', ''Ca''])) =
     [''MX'', ''CA''] \<and>
   fetch asciiUpper exampleNames neverDone (mkRequest [''us''] [''mx'', ''Ca'']) openEcho
     1700000000000000000 = Some (Inl (QueryingInfections ''US'')) \<and>
   fetch asciiUpper exampleNames neverDone (mkRequest [''us'', ''mx''] []) openEcho
     1700000000000000000 = Some (Inl (QueryingInfections []))"
proof -
  have u: "asciiUpper ''us'' = ''US''" "asciiUpper ''mx'' = ''MX''" "asciiUpper ''Ca'' = ''CA''"
    by code_simp+
  show ?thesis
    using criteria_of_request [of asciiUpper "mkRequest [''us''] [''mx'', ''Ca'']"
        1700000000000000000 "''us''" exampleNames neverDone openEcho]
      criteria_of_request [of asciiUpper "mkRequest [''us'', ''mx''] []"
        1700000000000000000 "''us''" exampleNames neverDone openEcho]
    by (simp add: mkRequest_def u criteria_def Let_def uppercaseRegions_def time_Unix_def
        openEcho_def)
qed

text \<open>The filter as six tests, for any two sets of regions.\<close>

lemma eligible_iff:
  "eligible names included excluded infn \<longleftrightarrow>
     DiagnosisKey infn \<noteq> [] \<and> Regions infn \<noteq> [] \<and> LocalProvenance infn \<and>
     int32 (DiagnosisStatus infn) \<in> dom names \<and>
     (\<exists>region \<in> set (Regions infn). region \<notin> excluded) \<and>
     (included = {} \<or> (\<exists>region \<in> set (Regions infn). region \<in> included))"
  by (auto simp add: eligible_def skipReason_def onlyExcluded_iff noneIncluded_iff dom_def)

text \<open>
  C2. The fourth test of the filter looks up the status after its conversion to
  \<^verbatim>\<open>int32\<close>. The record \<open>infBadStatus\<close> has the status 4294967297, which is not a
  number of the table; the conversion makes it 1, the record passes the filter and the
  response holds its key, under status 1.
\<close>

theorem unknown_status_included:
  "DiagnosisStatus infBadStatus = 4294967297 \<and>
   exampleNames (DiagnosisStatus infBadStatus) = None \<and>
   skipReason exampleNames {} {} infBadStatus = None \<and>
   fetch asciiUpper exampleNames neverDone (mkRequest [] [])
     (openList cursorAt [okRecord infBadStatus]) 0 =
   Some (Inr \<lparr>Response =
     [\<lparr>RegionIdentifiers_pb = [''US''],
       ContactTracingInfo =
         [\<lparr>DiagnosisStatus_pb = 1, VerificationAuthorityName_pb = ''AAA'',
           DiagnosisKeys =
             [\<lparr>DiagnosisKey_pb = [10], IntervalNumber_pb = 100, IntervalCount_pb = 144\<rparr>]\<rparr>]\<rparr>],
     FetchResponseKeyTimestamp = 8, PartialResponse = False, NextFetchToken = []\<rparr>)"
  by (simp add: fetch_def loop.simps body_def example_defs fetch_defs fmt_d_def)

section \<open>The grouping\<close>

text \<open>\<open>collate\<close> in the four cases of its two lookups.\<close>

lemma ctrKey_of_alt: "Join (sort_Strings (Regions r)) ''::'' = ctrKey_of r"
  by (simp add: ctrKey_of_def)

lemma ctiKey_of_alt:
  "Sprintf_ctiKey (ctrKey_of r) (int32 (DiagnosisStatus r)) (VerificationAuthorityName r) = ctiKey_of r"
  by (simp add: ctiKey_of_def)

lemma collate_found_found:
  assumes "ctrMap c (ctrKey_of r) = Some p" and "ctiMap c (ctiKey_of r) = Some q"
  shows "ctrMap (collate c r) = ctrMap c" and "ctiMap (collate c r) = ctiMap c"
    and "ctrs (collate c r) = addKey q (diagnosisKey_of r) (ctrs c)"
  using assms
  by (simp_all add: collate_def ctrKey_of_alt ctiKey_of_alt findOrCreateCtr_def
      findOrCreateCti_def updateCti_def updateCtr_def ctrs_def addKey_def Let_def)

lemma collate_found_new:
  assumes "ctrMap c (ctrKey_of r) = Some p" and "ctiMap c (ctiKey_of r) = None"
  shows "ctrMap (collate c r) = ctrMap c"
    and "ctiMap (collate c r) =
         (ctiMap c)(ctiKey_of r \<mapsto> (p, length (ContactTracingInfo (ctrs c ! p))))"
    and "ctrs (collate c r) =
         addKey (p, length (ContactTracingInfo (ctrs c ! p))) (diagnosisKey_of r)
           (addCti p (info_of r) (ctrs c))"
  using assms
  by (simp_all add: collate_def ctrKey_of_alt ctiKey_of_alt findOrCreateCtr_def
      findOrCreateCti_def updateCti_def updateCtr_def ctrs_def addKey_def addCti_def info_of_def
      Let_def)

lemma collate_new_found:
  assumes "ctrMap c (ctrKey_of r) = None" and "ctiMap c (ctiKey_of r) = Some q"
  shows "ctrMap (collate c r) = (ctrMap c)(ctrKey_of r \<mapsto> length (ctrs c))"
    and "ctiMap (collate c r) = ctiMap c"
    and "ctrs (collate c r) =
         addKey q (diagnosisKey_of r) (addCtr (sort_Strings (Regions r)) (ctrs c))"
  using assms
  by (simp_all add: collate_def ctrKey_of_alt ctiKey_of_alt findOrCreateCtr_def
      findOrCreateCti_def updateCti_def updateCtr_def ctrs_def addKey_def addCtr_def Let_def)

lemma collate_new_new:
  assumes "ctrMap c (ctrKey_of r) = None" and "ctiMap c (ctiKey_of r) = None"
  shows "ctrMap (collate c r) = (ctrMap c)(ctrKey_of r \<mapsto> length (ctrs c))"
    and "ctiMap (collate c r) = (ctiMap c)(ctiKey_of r \<mapsto> (length (ctrs c), 0))"
    and "ctrs (collate c r) =
         addKey (length (ctrs c), 0) (diagnosisKey_of r)
           (addCti (length (ctrs c)) (info_of r)
              (addCtr (sort_Strings (Regions r)) (ctrs c)))"
  using assms
  by (simp_all add: collate_def ctrKey_of_alt ctiKey_of_alt findOrCreateCtr_def
      findOrCreateCti_def updateCti_def updateCtr_def ctrs_def addKey_def addCti_def addCtr_def
      info_of_def Let_def)

lemma firstOfAcc_snoc:
  "firstOfAcc f seen (xs @ [x]) =
   firstOfAcc f seen xs @ (if f x \<in> seen \<union> f ` set xs then [] else [x])"
  by (induction xs arbitrary: seen) auto

lemma firstOf_snoc:
  "firstOf f (xs @ [x]) = firstOf f xs @ (if f x \<in> f ` set xs then [] else [x])"
  by (simp add: firstOf_def firstOfAcc_snoc)

lemma firstOf_Nil: "firstOf f [] = []"
  by (simp add: firstOf_def)

lemma set_firstOfAcc: "set (firstOfAcc f seen xs) \<subseteq> set xs"
  by (induction xs arbitrary: seen) auto

lemma set_firstOf: "set (firstOf f xs) \<subseteq> set xs"
  by (simp add: firstOf_def set_firstOfAcc)

text \<open>What the three updates of the response change.\<close>

lemma map_update_same: "(map f ys)[j := f (ys ! j)] = map f ys"
  by (cases "j < length ys") (simp_all add: list_update_same_conv list_update_beyond)

lemma info_pb_keys: "info_pb (y\<lparr>DiagnosisKeys := ks\<rparr>) = info_pb y"
  by (simp add: info_pb_def)

lemma addCtr_obs:
  "length (addCtr g xs) = Suc (length xs)"
  "p \<le> length xs \<Longrightarrow> regionsAt (addCtr g xs) p = (if p = length xs then g else regionsAt xs p)"
  "p \<le> length xs \<Longrightarrow> infosAt (addCtr g xs) p = (if p = length xs then [] else infosAt xs p)"
  "p < length xs \<Longrightarrow> keysAt (addCtr g xs) p j = keysAt xs p j"
  "map RegionIdentifiers_pb (addCtr g xs) = map RegionIdentifiers_pb xs @ [g]"
  by (auto simp add: addCtr_def regionsAt_def infosAt_def keysAt_def nth_append)

lemma addCti_obs:
  "length (addCti p0 i xs) = length xs"
  "regionsAt (addCti p0 i xs) p = regionsAt xs p"
  "map RegionIdentifiers_pb (addCti p0 i xs) = map RegionIdentifiers_pb xs"
  "p0 < length xs \<Longrightarrow>
     infosAt (addCti p0 i xs) p = (if p = p0 then infosAt xs p0 @ [i] else infosAt xs p)"
  "p0 < length xs \<Longrightarrow> j \<le> length (infosAt xs p) \<Longrightarrow>
     keysAt (addCti p0 i xs) p j =
       (if p = p0 \<and> j = length (infosAt xs p0) then [] else keysAt xs p j)"
proof -
  show "length (addCti p0 i xs) = length xs"
    by (simp add: addCti_def)
  show "regionsAt (addCti p0 i xs) p = regionsAt xs p" for p
    by (cases "p0 < length xs") (auto simp add: addCti_def regionsAt_def nth_list_update list_update_beyond)
  then show "map RegionIdentifiers_pb (addCti p0 i xs) = map RegionIdentifiers_pb xs"
    by (simp add: list_eq_iff_nth_eq regionsAt_def addCti_def)
  show "p0 < length xs \<Longrightarrow>
     infosAt (addCti p0 i xs) p = (if p = p0 then infosAt xs p0 @ [i] else infosAt xs p)"
    by (auto simp add: addCti_def infosAt_def info_pb_def nth_list_update)
  show "p0 < length xs \<Longrightarrow> j \<le> length (infosAt xs p) \<Longrightarrow>
     keysAt (addCti p0 i xs) p j =
       (if p = p0 \<and> j = length (infosAt xs p0) then [] else keysAt xs p j)"
    by (auto simp add: addCti_def infosAt_def keysAt_def nth_list_update nth_append)
qed

lemma addKey_obs:
  "length (addKey q d xs) = length xs"
  "regionsAt (addKey q d xs) p = regionsAt xs p"
  "map RegionIdentifiers_pb (addKey q d xs) = map RegionIdentifiers_pb xs"
  "infosAt (addKey q d xs) p = infosAt xs p"
  "fst q < length xs \<Longrightarrow> snd q < length (infosAt xs (fst q)) \<Longrightarrow>
     keysAt (addKey q d xs) p j =
       (if p = fst q \<and> j = snd q then keysAt xs p j @ [d] else keysAt xs p j)"
proof -
  show "length (addKey q d xs) = length xs"
    by (simp add: addKey_def)
  show "regionsAt (addKey q d xs) p = regionsAt xs p" for p
    by (cases "fst q < length xs") (auto simp add: addKey_def regionsAt_def nth_list_update list_update_beyond)
  then show "map RegionIdentifiers_pb (addKey q d xs) = map RegionIdentifiers_pb xs"
    by (simp add: list_eq_iff_nth_eq regionsAt_def addKey_def)
  show "infosAt (addKey q d xs) p = infosAt xs p"
    by (cases "fst q < length xs")
      (auto simp add: addKey_def infosAt_def nth_list_update map_update info_pb_keys
        map_update_same list_update_beyond)
  show "fst q < length xs \<Longrightarrow> snd q < length (infosAt xs (fst q)) \<Longrightarrow>
     keysAt (addKey q d xs) p j =
       (if p = fst q \<and> j = snd q then keysAt xs p j @ [d] else keysAt xs p j)"
    by (auto simp add: addKey_def infosAt_def keysAt_def nth_list_update)
qed

lemma keyAt_obs:
  "p \<le> length xs \<Longrightarrow> keyAt (addCtr g xs) p = (if p = length xs then Join g ''::'' else keyAt xs p)"
  "keyAt (addCti p0 i xs) p = keyAt xs p"
  "keyAt (addKey q d xs) p = keyAt xs p"
  by (simp_all add: keyAt_def addCtr_obs addCti_obs addKey_obs)

lemma ctiKeyAt_obs:
  "p < length xs \<Longrightarrow> ctiKeyAt (addCtr g xs) p j = ctiKeyAt xs p j"
  "p0 < length xs \<Longrightarrow> j \<le> length (infosAt xs p) \<Longrightarrow>
     ctiKeyAt (addCti p0 i xs) p j =
       (if p = p0 \<and> j = length (infosAt xs p0)
        then Sprintf_ctiKey (keyAt xs p0) (fst i) (snd i) else ctiKeyAt xs p j)"
  "ctiKeyAt (addKey q d xs) p j = ctiKeyAt xs p j"
  by (auto simp add: ctiKeyAt_def keyAt_obs addCtr_obs addCti_obs addKey_obs nth_append)

lemma ctiKey_of_info:
  "Sprintf_ctiKey (ctrKey_of r) (fst (info_of r)) (snd (info_of r)) = ctiKey_of r"
  by (simp add: info_of_def ctiKey_of_def)

lemma ctrKey_of_Join: "Join (sort_Strings (Regions r)) ''::'' = ctrKey_of r"
  by (simp add: ctrKey_of_def)

lemma wf3D:
  assumes "wf3 M N xs"
  shows "M k = Some p \<Longrightarrow> p < length xs" and "M k = Some p \<Longrightarrow> keyAt xs p = k"
    and "p < length xs \<Longrightarrow> M (keyAt xs p) = Some p"
    and "N k = Some (p, j) \<Longrightarrow> p < length xs"
    and "N k = Some (p, j) \<Longrightarrow> j < length (infosAt xs p)"
    and "N k = Some (p, j) \<Longrightarrow> ctiKeyAt xs p j = k"
    and "p < length xs \<Longrightarrow> j < length (infosAt xs p) \<Longrightarrow> N (ctiKeyAt xs p j) = Some (p, j)"
  using assms unfolding wf3_def by blast+

lemma wf3_addKey:
  assumes "wf3 M N xs"
  shows "wf3 M N (addKey q d xs)"
  using assms unfolding wf3_def
  by (simp only: addKey_obs keyAt_obs ctiKeyAt_obs)

lemma wf3I:
  assumes "\<And>k p. M k = Some p \<Longrightarrow> p < length xs \<and> keyAt xs p = k"
    and "\<And>p. p < length xs \<Longrightarrow> M (keyAt xs p) = Some p"
    and "\<And>k p j. N k = Some (p, j) \<Longrightarrow>
           p < length xs \<and> j < length (infosAt xs p) \<and> ctiKeyAt xs p j = k"
    and "\<And>p j. p < length xs \<Longrightarrow> j < length (infosAt xs p) \<Longrightarrow>
           N (ctiKeyAt xs p j) = Some (p, j)"
  shows "wf3 M N xs"
  using assms unfolding wf3_def by blast

lemma wf3_addCtr:
  assumes w: "wf3 M N xs" and none: "M ck = None" and jk: "Join g ''::'' = ck"
  shows "wf3 (M(ck \<mapsto> length xs)) N (addCtr g xs)"
proof (rule wf3I)
  fix k p assume a: "(M(ck \<mapsto> length xs)) k = Some p"
  show "p < length (addCtr g xs) \<and> keyAt (addCtr g xs) p = k"
  proof (cases "k = ck")
    case True
    with a jk show ?thesis by (simp add: addCtr_obs keyAt_obs)
  next
    case False
    with a have "M k = Some p" by simp
    from wf3D(1,2) [OF w this] show ?thesis by (simp add: addCtr_obs keyAt_obs)
  qed
next
  fix p assume a: "p < length (addCtr g xs)"
  show "(M(ck \<mapsto> length xs)) (keyAt (addCtr g xs) p) = Some p"
  proof (cases "p = length xs")
    case True
    with jk show ?thesis by (simp add: keyAt_obs)
  next
    case False
    with a have lt: "p < length xs" by (simp add: addCtr_obs)
    from wf3D(3) [OF w lt] none have "keyAt xs p \<noteq> ck" by auto
    with wf3D(3) [OF w lt] lt show ?thesis by (simp add: keyAt_obs)
  qed
next
  fix k p j assume a: "N k = Some (p, j)"
  from wf3D(4,5,6) [OF w a]
  show "p < length (addCtr g xs) \<and> j < length (infosAt (addCtr g xs) p) \<and>
        ctiKeyAt (addCtr g xs) p j = k"
    by (simp add: addCtr_obs ctiKeyAt_obs)
next
  fix p j assume a: "p < length (addCtr g xs)" and b: "j < length (infosAt (addCtr g xs) p)"
  from a b have lt: "p < length xs"
    by (cases "p = length xs") (simp_all add: addCtr_obs)
  with b have "j < length (infosAt xs p)" by (simp add: addCtr_obs)
  from wf3D(7) [OF w lt this] lt
  show "N (ctiKeyAt (addCtr g xs) p j) = Some (p, j)"
    by (simp add: ctiKeyAt_obs)
qed

lemma wf3_addCti:
  assumes w: "wf3 M N xs" and some: "M ck = Some p0"
    and none: "N (Sprintf_ctiKey ck (fst i) (snd i)) = None"
  shows "wf3 M (N(Sprintf_ctiKey ck (fst i) (snd i) \<mapsto> (p0, length (infosAt xs p0))))
           (addCti p0 i xs)"
proof -
  let ?CK = "Sprintf_ctiKey ck (fst i) (snd i)"
  let ?m = "length (infosAt xs p0)"
  from wf3D(1,2) [OF w some] have p0: "p0 < length xs" and kp0: "keyAt xs p0 = ck"
    by simp_all
  show ?thesis
  proof (rule wf3I)
    fix k p assume "M k = Some p"
    from wf3D(1,2) [OF w this]
    show "p < length (addCti p0 i xs) \<and> keyAt (addCti p0 i xs) p = k"
      by (simp add: addCti_obs keyAt_obs)
  next
    fix p assume "p < length (addCti p0 i xs)"
    then have "p < length xs" by (simp add: addCti_obs)
    from wf3D(3) [OF w this]
    show "M (keyAt (addCti p0 i xs) p) = Some p"
      by (simp add: keyAt_obs)
  next
    fix k p j assume a: "(N(?CK \<mapsto> (p0, ?m))) k = Some (p, j)"
    show "p < length (addCti p0 i xs) \<and> j < length (infosAt (addCti p0 i xs) p) \<and>
          ctiKeyAt (addCti p0 i xs) p j = k"
    proof (cases "k = ?CK")
      case True
      with a have "p = p0" "j = ?m" by auto
      with p0 kp0 True show ?thesis by (simp add: addCti_obs ctiKeyAt_obs)
    next
      case False
      with a have n: "N k = Some (p, j)" by simp
      from wf3D(4,5,6) [OF w n] p0 show ?thesis
        by (auto simp add: addCti_obs ctiKeyAt_obs)
    qed
  next
    fix p j assume a: "p < length (addCti p0 i xs)"
      and b: "j < length (infosAt (addCti p0 i xs) p)"
    from a have lt: "p < length xs" by (simp add: addCti_obs)
    show "(N(?CK \<mapsto> (p0, ?m))) (ctiKeyAt (addCti p0 i xs) p j) = Some (p, j)"
    proof (cases "p = p0 \<and> j = ?m")
      case True
      with p0 kp0 show ?thesis by (simp add: ctiKeyAt_obs)
    next
      case False
      with b p0 have jl: "j < length (infosAt xs p)"
        by (auto simp add: addCti_obs split: if_splits)
      from wf3D(7) [OF w lt jl] none have "ctiKeyAt xs p j \<noteq> ?CK" by auto
      with wf3D(7) [OF w lt jl] False p0 jl show ?thesis
        by (auto simp add: ctiKeyAt_obs)
    qed
  qed
qed

lemma ord_addKey: "ord F1 F2 xs \<Longrightarrow> ord F1 F2 (addKey q d xs)"
  unfolding ord_def by (simp add: addKey_obs keyAt_obs)

lemma ord_addCtr:
  assumes o: "ord F1 F2 xs" and fresh: "\<forall>x \<in> set F2. ctrKey_of x \<noteq> ctrKey_of r"
  shows "ord (F1 @ [r]) F2 (addCtr (sort_Strings (Regions r)) xs)"
  unfolding ord_def
proof (intro conjI allI impI)
  from o show "map RegionIdentifiers_pb (addCtr (sort_Strings (Regions r)) xs) =
      map (\<lambda>r. sort_Strings (Regions r)) (F1 @ [r])"
    by (simp add: ord_def addCtr_obs)
next
  fix p assume "p < length (addCtr (sort_Strings (Regions r)) xs)"
  then have le: "p \<le> length xs" by (simp add: addCtr_obs)
  from fresh have "filter (\<lambda>x. ctrKey_of x = ctrKey_of r) F2 = []"
    by (simp add: filter_empty_conv)
  with o le
  show "infosAt (addCtr (sort_Strings (Regions r)) xs) p =
      map info_of (filter (\<lambda>x. ctrKey_of x = keyAt (addCtr (sort_Strings (Regions r)) xs) p) F2)"
    by (auto simp add: ord_def addCtr_obs keyAt_obs ctrKey_of_def)
qed

lemma ord_addCti:
  assumes o: "ord F1 F2 xs" and w: "wf3 M N xs" and some: "M (ctrKey_of r) = Some p0"
  shows "ord F1 (F2 @ [r]) (addCti p0 (info_of r) xs)"
  unfolding ord_def
proof (intro conjI allI impI)
  from o show "map RegionIdentifiers_pb (addCti p0 (info_of r) xs) =
      map (\<lambda>r. sort_Strings (Regions r)) F1"
    by (simp add: ord_def addCti_obs)
next
  fix p assume "p < length (addCti p0 (info_of r) xs)"
  then have lt: "p < length xs" by (simp add: addCti_obs)
  from wf3D(1,2) [OF w some] have p0: "p0 < length xs" and kp0: "keyAt xs p0 = ctrKey_of r"
    by simp_all
  show "infosAt (addCti p0 (info_of r) xs) p =
      map info_of (filter (\<lambda>x. ctrKey_of x = keyAt (addCti p0 (info_of r) xs) p) (F2 @ [r]))"
  proof (cases "p = p0")
    case True
    with o p0 kp0 show ?thesis
      by (simp add: ord_def addCti_obs keyAt_obs)
  next
    case False
    then have "ctrKey_of r \<noteq> keyAt xs p"
      using wf3D(3) [OF w lt] some by auto
    with o lt p0 False show ?thesis
      by (simp add: ord_def addCti_obs keyAt_obs)
  qed
qed

lemma keyed_addCtr: "keyed rs xs \<Longrightarrow> keyed rs (addCtr g xs)"
  unfolding keyed_def
proof (intro allI impI)
  fix p j
  assume k: "\<forall>p j. p < length xs \<longrightarrow> j < length (infosAt xs p) \<longrightarrow>
        keysAt xs p j = map diagnosisKey_of (filter (\<lambda>r. ctiKey_of r = ctiKeyAt xs p j) rs)"
    and a: "p < length (addCtr g xs)" and b: "j < length (infosAt (addCtr g xs) p)"
  from a b have lt: "p < length xs"
    by (cases "p = length xs") (simp_all add: addCtr_obs)
  with b have "j < length (infosAt xs p)" by (simp add: addCtr_obs)
  with k lt show "keysAt (addCtr g xs) p j =
      map diagnosisKey_of (filter (\<lambda>r. ctiKey_of r = ctiKeyAt (addCtr g xs) p j) rs)"
    by (simp add: addCtr_obs ctiKeyAt_obs)
qed

lemma keyed_addCti:
  assumes k: "keyed rs xs" and p0: "p0 < length xs"
    and fresh: "\<forall>x \<in> set rs. ctiKey_of x \<noteq> Sprintf_ctiKey (keyAt xs p0) (fst i) (snd i)"
  shows "keyed rs (addCti p0 i xs)"
  unfolding keyed_def
proof (intro allI impI)
  fix p j
  assume a: "p < length (addCti p0 i xs)" and b: "j < length (infosAt (addCti p0 i xs) p)"
  from a have lt: "p < length xs" by (simp add: addCti_obs)
  from b p0 have le: "j \<le> length (infosAt xs p)"
    by (auto simp add: addCti_obs split: if_splits)
  show "keysAt (addCti p0 i xs) p j =
      map diagnosisKey_of (filter (\<lambda>r. ctiKey_of r = ctiKeyAt (addCti p0 i xs) p j) rs)"
  proof (cases "p = p0 \<and> j = length (infosAt xs p0)")
    case True
    from fresh
    have "filter (\<lambda>r. ctiKey_of r = Sprintf_ctiKey (keyAt xs p0) (fst i) (snd i)) rs = []"
      by (simp add: filter_empty_conv)
    with True p0 show ?thesis by (simp add: addCti_obs ctiKeyAt_obs)
  next
    case False
    with b p0 have "j < length (infosAt xs p)"
      by (auto simp add: addCti_obs split: if_splits)
    with k lt False p0 le show ?thesis
      by (auto simp add: keyed_def addCti_obs ctiKeyAt_obs)
  qed
qed

lemma keyed_addKey:
  assumes k: "keyed rs xs" and w: "wf3 M N xs" and some: "N (ctiKey_of r) = Some q"
  shows "keyed (rs @ [r]) (addKey q (diagnosisKey_of r) xs)"
  unfolding keyed_def
proof (intro allI impI)
  fix p j
  assume a: "p < length (addKey q (diagnosisKey_of r) xs)"
    and b: "j < length (infosAt (addKey q (diagnosisKey_of r) xs) p)"
  then have lt: "p < length xs" and jl: "j < length (infosAt xs p)"
    by (simp_all add: addKey_obs)
  obtain p1 j1 where q: "q = (p1, j1)" by (cases q)
  from wf3D(4,5,6) [OF w some [unfolded q]]
  have v: "p1 < length xs" "j1 < length (infosAt xs p1)" "ctiKeyAt xs p1 j1 = ctiKey_of r"
    by simp_all
  have iff: "ctiKey_of r = ctiKeyAt xs p j \<longleftrightarrow> p = p1 \<and> j = j1"
    using wf3D(7) [OF w lt jl] some q v(3) by auto
  from k lt jl have "keysAt xs p j =
      map diagnosisKey_of (filter (\<lambda>r. ctiKey_of r = ctiKeyAt xs p j) rs)"
    by (simp add: keyed_def)
  with iff v q
  show "keysAt (addKey q (diagnosisKey_of r) xs) p j =
      map diagnosisKey_of
        (filter (\<lambda>x. ctiKey_of x = ctiKeyAt (addKey q (diagnosisKey_of r) xs) p j) (rs @ [r]))"
    by (auto simp add: addKey_obs ctiKeyAt_obs)
qed

lemma length_infosAt: "length (infosAt xs p) = length (ContactTracingInfo (xs ! p))"
  by (simp add: infosAt_def)

lemma grouped_empty: "grouped [] emptyCollator"
  by (simp add: grouped_def wf3_def ord_def keyed_def emptyCollator_def emptyResponse_def
      ctrs_def firstOf_Nil)

lemma grouped_collate:
  assumes g: "grouped rs c"
  shows "grouped (rs @ [r]) (collate c r)"
proof -
  let ?M = "ctrMap c" and ?N = "ctiMap c" and ?xs = "ctrs c"
  let ?g = "sort_Strings (Regions r)" and ?i = "info_of r" and ?d = "diagnosisKey_of r"
  from g have w: "wf3 ?M ?N ?xs" and dM: "dom ?M = ctrKey_of ` set rs"
    and dN: "dom ?N = ctiKey_of ` set rs"
    and o: "ord (firstOf ctrKey_of rs) (firstOf ctiKey_of rs) ?xs" and k: "keyed rs ?xs"
    by (simp_all add: grouped_def)
  show ?thesis
  proof (cases "?M (ctrKey_of r)")
    case None
    note ctrNone = None
    then have f1: "ctrKey_of r \<notin> ctrKey_of ` set rs" by (metis dM domIff option.distinct(1))
    then have fresh1: "\<forall>x \<in> set (firstOf ctiKey_of rs). ctrKey_of x \<noteq> ctrKey_of r"
      using set_firstOf [of ctiKey_of rs] by (metis imageI subsetD)
    let ?M1 = "?M(ctrKey_of r \<mapsto> length ?xs)" and ?xs1 = "addCtr ?g ?xs"
    have w1: "wf3 ?M1 ?N ?xs1"
      by (rule wf3_addCtr [OF w ctrNone]) (simp add: ctrKey_of_def)
    have o1: "ord (firstOf ctrKey_of rs @ [r]) (firstOf ctiKey_of rs) ?xs1"
      by (rule ord_addCtr [OF o fresh1])
    have k1: "keyed rs ?xs1"
      by (rule keyed_addCtr [OF k])
    have m1: "?M1 (ctrKey_of r) = Some (length ?xs)" by simp
    have dM1: "dom ?M1 = ctrKey_of ` set (rs @ [r])" using dM by auto
    show ?thesis
    proof (cases "?N (ctiKey_of r)")
      case None
      then have f2: "ctiKey_of r \<notin> ctiKey_of ` set rs" by (metis dN domIff option.distinct(1))
      let ?N2 = "?N(ctiKey_of r \<mapsto> (length ?xs, 0))" and ?xs2 = "addCti (length ?xs) ?i ?xs1"
      have len0: "length (infosAt ?xs1 (length ?xs)) = 0" by (simp add: addCtr_obs)
      have w2: "wf3 ?M1 ?N2 ?xs2"
      proof -
        have "?N (Sprintf_ctiKey (ctrKey_of r) (fst ?i) (snd ?i)) = None"
          using None by (simp add: ctiKey_of_info)
        from wf3_addCti [OF w1 m1 this] show ?thesis
          by (simp only: ctiKey_of_info len0)
      qed
      have o2: "ord (firstOf ctrKey_of rs @ [r]) (firstOf ctiKey_of rs @ [r]) ?xs2"
        by (rule ord_addCti [OF o1 w1 m1])
      have f2': "\<forall>x \<in> set rs. ctiKey_of x \<noteq> ctiKey_of r"
        using f2 by (metis imageI)
      have k2: "keyed rs ?xs2"
        by (rule keyed_addCti [OF k1])
          (use f2' in \<open>simp_all add: addCtr_obs keyAt_obs ctrKey_of_Join ctiKey_of_info\<close>)
      have n2: "?N2 (ctiKey_of r) = Some (length ?xs, 0)" by simp
      have "wf3 ?M1 ?N2 (addKey (length ?xs, 0) ?d ?xs2)"
        by (rule wf3_addKey [OF w2])
      moreover have "ord (firstOf ctrKey_of rs @ [r]) (firstOf ctiKey_of rs @ [r])
          (addKey (length ?xs, 0) ?d ?xs2)"
        by (rule ord_addKey [OF o2])
      moreover have "keyed (rs @ [r]) (addKey (length ?xs, 0) ?d ?xs2)"
        by (rule keyed_addKey [OF k2 w2 n2])
      moreover have "dom ?N2 = ctiKey_of ` set (rs @ [r])" using dN by auto
      ultimately show ?thesis
        using dM1 f1 f2
        by (simp add: grouped_def collate_new_new [OF ctrNone None] firstOf_snoc)
    next
      case (Some q)
      then have f2: "ctiKey_of r \<in> ctiKey_of ` set rs" by (metis dN domIff option.distinct(1))
      have "wf3 ?M1 ?N (addKey q ?d ?xs1)"
        by (rule wf3_addKey [OF w1])
      moreover have "ord (firstOf ctrKey_of rs @ [r]) (firstOf ctiKey_of rs) (addKey q ?d ?xs1)"
        by (rule ord_addKey [OF o1])
      moreover have "keyed (rs @ [r]) (addKey q ?d ?xs1)"
        by (rule keyed_addKey [OF k1 w1 Some])
      moreover have "dom ?N = ctiKey_of ` set (rs @ [r])" using dN f2 by auto
      ultimately show ?thesis
        using dM1 f1 f2
        by (simp add: grouped_def collate_new_found [OF ctrNone Some] firstOf_snoc)
    qed
  next
    case (Some p0)
    note ctrSome = Some
    then have f1: "ctrKey_of r \<in> ctrKey_of ` set rs" by (metis dM domIff option.distinct(1))
    then have dM1: "dom ?M = ctrKey_of ` set (rs @ [r])" using dM by auto
    from wf3D(1,2) [OF w ctrSome] have p0: "p0 < length ?xs" and kp0: "keyAt ?xs p0 = ctrKey_of r"
      by simp_all
    show ?thesis
    proof (cases "?N (ctiKey_of r)")
      case None
      then have f2: "ctiKey_of r \<notin> ctiKey_of ` set rs" by (metis dN domIff option.distinct(1))
      let ?m = "length (ContactTracingInfo (?xs ! p0))"
      let ?N2 = "?N(ctiKey_of r \<mapsto> (p0, ?m))" and ?xs2 = "addCti p0 ?i ?xs"
      have w2: "wf3 ?M ?N2 ?xs2"
      proof -
        have "?N (Sprintf_ctiKey (ctrKey_of r) (fst ?i) (snd ?i)) = None"
          using None by (simp add: ctiKey_of_info)
        from wf3_addCti [OF w ctrSome this] show ?thesis
          by (simp only: ctiKey_of_info length_infosAt)
      qed
      have o2: "ord (firstOf ctrKey_of rs) (firstOf ctiKey_of rs @ [r]) ?xs2"
        by (rule ord_addCti [OF o w ctrSome])
      have f2': "\<forall>x \<in> set rs. ctiKey_of x \<noteq> ctiKey_of r"
        using f2 by (metis imageI)
      have k2: "keyed rs ?xs2"
        by (rule keyed_addCti [OF k p0])
          (use f2' kp0 in \<open>simp add: ctiKey_of_info\<close>)
      have n2: "?N2 (ctiKey_of r) = Some (p0, ?m)" by simp
      have "wf3 ?M ?N2 (addKey (p0, ?m) ?d ?xs2)"
        by (rule wf3_addKey [OF w2])
      moreover have "ord (firstOf ctrKey_of rs) (firstOf ctiKey_of rs @ [r])
          (addKey (p0, ?m) ?d ?xs2)"
        by (rule ord_addKey [OF o2])
      moreover have "keyed (rs @ [r]) (addKey (p0, ?m) ?d ?xs2)"
        by (rule keyed_addKey [OF k2 w2 n2])
      moreover have "dom ?N2 = ctiKey_of ` set (rs @ [r])" using dN by auto
      ultimately show ?thesis
        using dM1 f1 f2
        by (simp add: grouped_def collate_found_new [OF ctrSome None] firstOf_snoc)
    next
      case (Some q)
      then have f2: "ctiKey_of r \<in> ctiKey_of ` set rs" by (metis dN domIff option.distinct(1))
      have "wf3 ?M ?N (addKey q ?d ?xs)"
        by (rule wf3_addKey [OF w])
      moreover have "ord (firstOf ctrKey_of rs) (firstOf ctiKey_of rs) (addKey q ?d ?xs)"
        by (rule ord_addKey [OF o])
      moreover have "keyed (rs @ [r]) (addKey q ?d ?xs)"
        by (rule keyed_addKey [OF k w Some])
      moreover have "dom ?N = ctiKey_of ` set (rs @ [r])" using dN f2 by auto
      ultimately show ?thesis
        using dM1 f1 f2
        by (simp add: grouped_def collate_found_found [OF ctrSome Some] firstOf_snoc)
    qed
  qed
qed

lemma grouped_collateAll: "grouped rs (collateAll emptyCollator rs)"
proof (induction rs rule: rev_induct)
  case Nil
  show ?case by (simp add: collateAll_Nil grouped_empty)
next
  case (snoc r rs)
  then show ?case by (simp add: collateAll_snoc grouped_collate)
qed

section \<open>Where a call ends\<close>

lemma runs_Suc_end:
  "runs ctx it n s (Suc k) \<longleftrightarrow>
   runs ctx it n s k \<and> ctx (n + k) = None \<and>
   (case Next it (stateAfter it s k) of ((r, d, e), s') \<Rightarrow> \<not> d \<and> e = None)"
proof (induction k arbitrary: n s)
  case 0
  show ?case by (simp split: prod.splits)
next
  case (Suc k)
  show ?case
    by (subst runs.simps(2), subst Suc.IH) (auto split: prod.splits)
qed

lemma loop_end:
  assumes np: "\<not> PartialResponse (response c)"
    and stop: "\<not> (ctx n = None \<and>
      (case Next it s of ((r, d, e), s') \<Rightarrow> \<not> d \<and> e = None))"
    and res: "loop ctx it names incl excl n s c = Some (Inr resp)"
  shows "\<exists>p t. resp = (response c)\<lparr>PartialResponse := p, NextFetchToken := t\<rparr>"
proof (cases "ctx n")
  case None
  obtain r d e s' where nx: "Next it s = ((r, d, e), s')"
    by (metis prod.exhaust)
  show ?thesis
  proof (cases e)
    case (Some err)
    with loop_next_error [where c = c and ctx = ctx and n = n and it = it and s = s
        and r = r and d = d and err = err and s' = s' and names = names and incl = incl
        and excl = excl] np None nx res show ?thesis by simp
  next
    case e: None
    with stop None nx have d by simp
    with loop_done [where c = c and ctx = ctx and n = n and it = it and s = s
        and r = r and s' = s' and names = names and incl = incl and excl = excl]
      np None nx e res have "resp = response c" by simp
    then have "resp = (response c)\<lparr>PartialResponse := PartialResponse (response c),
        NextFetchToken := NextFetchToken (response c)\<rparr>" by simp
    then show ?thesis by blast
  qed
next
  case (Some e)
  show ?thesis
  proof (cases "e = DeadlineExceeded \<or> e = Canceled")
    case False
    with loop_context_error [where c = c and ctx = ctx and n = n and e = e and it = it
        and s = s and names = names and incl = incl and excl = excl] np Some res
    show ?thesis by simp
  next
    case True
    obtain cur ce where cu: "Cursor it s = (cur, ce)" by (cases "Cursor it s")
    show ?thesis
    proof (cases ce)
      case None
      with loop_partial [where c = c and ctx = ctx and n = n and e = e and it = it
        and s = s and cursor = cur and names = names and incl = incl and excl = excl]
        np \<open>ctx n = Some e\<close> True cu res show ?thesis
        by auto
    next
      case (Some err)
      with loop_cursor_error [where c = c and ctx = ctx and n = n and e = e and it = it
        and s = s and cursor = cur and err = err and names = names and incl = incl
        and excl = excl] np \<open>ctx n = Some e\<close> True cu res show ?thesis by simp
    qed
  qed
qed

lemma fetch_response:
  assumes opened: "itFunc (criteria (uppercaseRegions ToUpper req) fetchUntil) = Inr (it, s)"
    and run: "runs ctx it 0 s k" and stop: "\<not> runs ctx it 0 s (Suc k)"
    and res: "fetch ToUpper names ctx req itFunc fetchUntil = Some (Inr resp)"
  shows "\<exists>p t. resp = (assembled (includedRecords ToUpper names req it s k))
           \<lparr>PartialResponse := p, NextFetchToken := t\<rparr>"
proof -
  let ?c = "collateAll emptyCollator (includedRecords ToUpper names req it s k)"
  have np: "\<not> PartialResponse (response ?c)"
    by (simp add: collateAll_flags emptyCollator_flags)
  from stop run runs_Suc_end [of ctx it 0 s k] have st: "\<not> (ctx k = None \<and>
      (case Next it (stateAfter it s k) of ((r, d, e), s') \<Rightarrow> \<not> d \<and> e = None))"
    by (simp del: runs.simps)
  from fetch_runs [of itFunc ToUpper req fetchUntil it s ctx k names] opened run res
  have "loop ctx it names (includedRegions (uppercaseRegions ToUpper req))
           (excludedRegions (uppercaseRegions ToUpper req)) k (stateAfter it s k) ?c = Some (Inr resp)"
    by simp
  from loop_end [OF np st this] show ?thesis by (simp add: assembled_def)
qed

lemma fetch_response_fields:
  assumes "itFunc (criteria (uppercaseRegions ToUpper req) fetchUntil) = Inr (it, s)"
    and "runs ctx it 0 s k" and "\<not> runs ctx it 0 s (Suc k)"
    and "fetch ToUpper names ctx req itFunc fetchUntil = Some (Inr resp)"
  shows "Response resp = Response (assembled (includedRecords ToUpper names req it s k))"
    and "FetchResponseKeyTimestamp resp =
         FetchResponseKeyTimestamp (assembled (includedRecords ToUpper names req it s k))"
  using fetch_response [OF assms] by auto

text \<open>A call that returns has such a last iteration.\<close>

lemma body_goes_on:
  assumes "ctx n = None" and "Next it s = ((r, False, None), s')"
  shows "\<exists>c'. body ctx it names incl excl n s c = Continue (s', c') \<and>
           PartialResponse (response c') = PartialResponse (response c)"
  using assms by (auto simp add: body_def collate_flags split: option.splits)

lemma loop_returns_ends:
  assumes "loop ctx it names incl excl n s c = Some y"
  shows "\<not> PartialResponse (response c) \<longrightarrow>
     (\<exists>k. runs ctx it n s k \<and> \<not> runs ctx it n s (Suc k))"
proof (rule loop.raw_induct [where P = "\<lambda>ctx it names incl excl n s c y.
      \<not> PartialResponse (response c) \<longrightarrow>
        (\<exists>k. runs ctx it n s k \<and> \<not> runs ctx it n s (Suc k))"
      and ctx = ctx and it = it and names = names and included = incl and excluded = excl
      and n = n and s = s and c = c and y = y])
  show "loop ctx it names incl excl n s c = Some y" by (rule assms)
next
  fix loop' :: "Context \<Rightarrow> 'a InfectionIterator \<Rightarrow> (int \<rightharpoonup> string) \<Rightarrow> string set \<Rightarrow> string set \<Rightarrow>
      nat \<Rightarrow> 'a \<Rightarrow> collator \<Rightarrow> (fetch_error + FederationFetchResponse) option"
  fix ctx it names incl excl n s c y
  assume IH: "\<And>ctx it names incl excl n s c y.
      loop' ctx it names incl excl n s c = Some y \<Longrightarrow>
      \<not> PartialResponse (response c) \<longrightarrow>
        (\<exists>k. runs ctx it n s k \<and> \<not> runs ctx it n s (Suc k))"
    and eq: "(if PartialResponse (response c) then Some (Inr (response c))
        else case body ctx it names incl excl n s c of
               Return err \<Rightarrow> Some (Inl err)
             | Break \<Rightarrow> Some (Inr (response c))
             | Continue (s', c') \<Rightarrow> loop' ctx it names incl excl (Suc n) s' c') = Some y"
  show "\<not> PartialResponse (response c) \<longrightarrow>
        (\<exists>k. runs ctx it n s k \<and> \<not> runs ctx it n s (Suc k))"
  proof
    assume np: "\<not> PartialResponse (response c)"
    obtain r d e s' where nx: "Next it s = ((r, d, e), s')"
      by (metis prod.exhaust)
    show "\<exists>k. runs ctx it n s k \<and> \<not> runs ctx it n s (Suc k)"
    proof (cases "ctx n = None \<and> \<not> d \<and> e = None")
      case False
      with nx have "runs ctx it n s 0 \<and> \<not> runs ctx it n s (Suc 0)" by auto
      then show ?thesis by blast
    next
      case True
      with nx body_goes_on [of ctx n it s r s' names incl excl c]
      obtain c' where b: "body ctx it names incl excl n s c = Continue (s', c')"
        and p: "PartialResponse (response c') = PartialResponse (response c)"
        by auto
      from eq np b have "loop' ctx it names incl excl (Suc n) s' c' = Some y"
        by simp
      from IH [OF this] p np
      obtain k where rk: "runs ctx it (Suc n) s' k"
        and nrk: "\<not> runs ctx it (Suc n) s' (Suc k)"
        by blast
      have "runs ctx it n s (Suc k)"
        using True nx rk by simp
      moreover have "\<not> runs ctx it n s (Suc (Suc k))"
        using nx nrk by (subst runs.simps(2)) (simp del: runs.simps)
      ultimately show ?thesis by blast
    qed
  qed
qed

lemma fetch_returns_ends:
  assumes "itFunc (criteria (uppercaseRegions ToUpper req) fetchUntil) = Inr (it, s)"
    and "fetch ToUpper names ctx req itFunc fetchUntil = Some y"
  shows "\<exists>k. runs ctx it 0 s k \<and> \<not> runs ctx it 0 s (Suc k)"
  using assms loop_returns_ends [of ctx it names "includedRegions (uppercaseRegions ToUpper req)"
      "excludedRegions (uppercaseRegions ToUpper req)" 0 s emptyCollator y]
  by (simp add: fetch_def emptyCollator_flags Let_def del: runs.simps)

section \<open>The timestamp\<close>

lemma collate_timestamp:
  "FetchResponseKeyTimestamp (response (collate c r)) =
   (if Unix (CreatedAt r) > FetchResponseKeyTimestamp (response c)
    then Unix (CreatedAt r) else FetchResponseKeyTimestamp (response c))"
  unfolding collate_def findOrCreateCtr_def findOrCreateCti_def updateCti_def updateCtr_def Let_def
  by (simp split: option.splits prod.splits)

lemma Max_insert_max:
  "finite S \<Longrightarrow> Max (insert (max a b) S) = Max (insert (a::int) (insert b S))"
  by (cases "S = {}") (simp_all add: max.assoc)

lemma collateAll_timestamp:
  "FetchResponseKeyTimestamp (response (collateAll c rs)) =
   Max (insert (FetchResponseKeyTimestamp (response c)) ((\<lambda>r. Unix (CreatedAt r)) ` set rs))"
proof (induction rs arbitrary: c)
  case Nil
  show ?case by (simp add: collateAll_Nil)
next
  case (Cons r rs)
  have "(if Unix (CreatedAt r) > FetchResponseKeyTimestamp (response c)
    then Unix (CreatedAt r) else FetchResponseKeyTimestamp (response c)) =
    max (FetchResponseKeyTimestamp (response c)) (Unix (CreatedAt r))"
    by (simp add: max_def)
  then show ?case
    by (simp add: collateAll_Cons Cons.IH collate_timestamp Max_insert_max del: Max_insert)
qed

lemma assembled_timestamp:
  "FetchResponseKeyTimestamp (assembled rs) =
   Max (insert 0 ((\<lambda>r. Unix (CreatedAt r)) ` set rs))"
  by (simp add: assembled_def collateAll_timestamp emptyCollator_def emptyResponse_def)

lemma assembled_grouped:
  "grouped rs (collateAll emptyCollator rs)" "ctrs (collateAll emptyCollator rs) = Response (assembled rs)"
  by (simp_all add: grouped_collateAll ctrs_def assembled_def)

lemma keyAt_nth: "keyAt xs p = ctrKey_pb (xs ! p)"
  by (simp add: keyAt_def regionsAt_def ctrKey_pb_def)

lemma ctiKeyAt_nth:
  "j < length (ContactTracingInfo (xs ! p)) \<Longrightarrow>
   ctiKeyAt xs p j = ctiKey_pb (xs ! p) (ContactTracingInfo (xs ! p) ! j)"
  by (simp add: ctiKeyAt_def infosAt_def info_pb_def ctiKey_pb_def keyAt_nth)

lemma assembled_regions:
  "map RegionIdentifiers_pb (Response (assembled rs)) =
   map (\<lambda>r. sort_Strings (Regions r)) (firstOf ctrKey_of rs)"
  using assembled_grouped [of rs] by (simp add: grouped_def ord_def)

lemma assembled_infos:
  assumes "x \<in> set (Response (assembled rs))"
  shows "map info_pb (ContactTracingInfo x) =
         map info_of (filter (\<lambda>r. ctrKey_of r = ctrKey_pb x) (firstOf ctiKey_of rs))"
proof -
  from assms obtain p where p: "p < length (Response (assembled rs))"
    and x: "x = Response (assembled rs) ! p"
    by (auto simp add: in_set_conv_nth)
  from assembled_grouped [of rs] p
  have "infosAt (Response (assembled rs)) p =
      map info_of (filter (\<lambda>r. ctrKey_of r = keyAt (Response (assembled rs)) p)
        (firstOf ctiKey_of rs))"
    by (simp add: grouped_def ord_def)
  with x show ?thesis by (simp add: infosAt_def keyAt_nth)
qed

lemma assembled_keys:
  assumes "x \<in> set (Response (assembled rs))" and "y \<in> set (ContactTracingInfo x)"
  shows "DiagnosisKeys y =
         map diagnosisKey_of (filter (\<lambda>r. ctiKey_of r = ctiKey_pb x y) rs)"
proof -
  from assms obtain p j where p: "p < length (Response (assembled rs))"
    and x: "x = Response (assembled rs) ! p"
    and j: "j < length (ContactTracingInfo x)" and y: "y = ContactTracingInfo x ! j"
    by (auto simp add: in_set_conv_nth)
  from assembled_grouped [of rs] p j x
  have "keysAt (Response (assembled rs)) p j =
      map diagnosisKey_of (filter (\<lambda>r. ctiKey_of r = ctiKeyAt (Response (assembled rs)) p j) rs)"
    by (simp add: grouped_def keyed_def length_infosAt)
  with x y j show ?thesis by (simp add: keysAt_def ctiKeyAt_nth)
qed

lemma assembled_lands:
  assumes "a \<in> set rs"
  shows "\<exists>x \<in> set (Response (assembled rs)). \<exists>y \<in> set (ContactTracingInfo x).
           ctiKey_pb x y = ctiKey_of a"
proof -
  let ?c = "collateAll emptyCollator rs" and ?xs = "Response (assembled rs)"
  from assembled_grouped [of rs] have w: "wf3 (ctrMap ?c) (ctiMap ?c) ?xs"
    and d: "dom (ctiMap ?c) = ctiKey_of ` set rs"
    by (simp_all add: grouped_def)
  from assms d have "ctiKey_of a \<in> dom (ctiMap ?c)" by simp
  then obtain p j where n: "ctiMap ?c (ctiKey_of a) = Some (p, j)" by auto
  from wf3D(4,5,6) [OF w n] have p: "p < length ?xs"
    and j: "j < length (ContactTracingInfo (?xs ! p))" and k: "ctiKeyAt ?xs p j = ctiKey_of a"
    by (simp_all add: length_infosAt)
  from p j k have "?xs ! p \<in> set ?xs" "ContactTracingInfo (?xs ! p) ! j \<in> set (ContactTracingInfo (?xs ! p))"
    "ctiKey_pb (?xs ! p) (ContactTracingInfo (?xs ! p) ! j) = ctiKey_of a"
    by (simp_all add: ctiKeyAt_nth)
  then show ?thesis by blast
qed

lemma assembled_includes:
  assumes "a \<in> set rs"
  shows "\<exists>x \<in> set (Response (assembled rs)). \<exists>y \<in> set (ContactTracingInfo x).
           DiagnosisKeys y = map diagnosisKey_of (filter (\<lambda>r. ctiKey_of r = ctiKey_of a) rs) \<and>
           diagnosisKey_of a \<in> set (DiagnosisKeys y)"
proof -
  from assembled_lands [OF assms] obtain x y where x: "x \<in> set (Response (assembled rs))"
    and y: "y \<in> set (ContactTracingInfo x)" and k: "ctiKey_pb x y = ctiKey_of a"
    by blast
  from assembled_keys [OF x y] k assms
  have "DiagnosisKeys y = map diagnosisKey_of (filter (\<lambda>r. ctiKey_of r = ctiKey_of a) rs)"
    and "diagnosisKey_of a \<in> set (DiagnosisKeys y)"
    by auto
  with x y show ?thesis by blast
qed

text \<open>
  C4. In the response of a call that ended at iteration \<open>k\<close>, the timestamp is the
  greatest creation time (in seconds) of the records included, when there is one and it
  is not negative; it is 0 when no record is included, and also when every included
  record was created before the epoch.
\<close>

theorem watermark_is_maximum:
  assumes "itFunc (criteria (uppercaseRegions ToUpper req) fetchUntil) = Inr (it, s)"
    and "runs ctx it 0 s k" and "\<not> runs ctx it 0 s (Suc k)"
    and "fetch ToUpper names ctx req itFunc fetchUntil = Some (Inr resp)"
  shows "(includedRecords ToUpper names req it s k \<noteq> [] \<and>
          0 \<le> Max ((\<lambda>r. Unix (CreatedAt r)) ` set (includedRecords ToUpper names req it s k)) \<longrightarrow>
            FetchResponseKeyTimestamp resp =
            Max ((\<lambda>r. Unix (CreatedAt r)) ` set (includedRecords ToUpper names req it s k))) \<and>
         (includedRecords ToUpper names req it s k \<noteq> [] \<and>
          Max ((\<lambda>r. Unix (CreatedAt r)) ` set (includedRecords ToUpper names req it s k)) < 0 \<longrightarrow>
            FetchResponseKeyTimestamp resp = 0) \<and>
         (includedRecords ToUpper names req it s k = [] \<longrightarrow> FetchResponseKeyTimestamp resp = 0)"
proof -
  let ?S = "(\<lambda>r. Unix (CreatedAt r)) ` set (includedRecords ToUpper names req it s k)"
  have ts: "FetchResponseKeyTimestamp resp = Max (insert 0 ?S)"
    using fetch_response_fields(2) [OF assms] by (simp add: assembled_timestamp)
  have "includedRecords ToUpper names req it s k \<noteq> [] \<Longrightarrow> Max (insert 0 ?S) = max 0 (Max ?S)"
    by simp
  with ts show ?thesis by auto
qed

text \<open>Three records, created at 5, 7 and 6 seconds.\<close>

theorem watermark_is_maximum_witness:
  "fetch asciiUpper exampleNames neverDone (mkRequest [] [])
     (openList cursorAt (map okRecord [infUSCA, infCAUS, infMX])) 0 =
   Some (Inr \<lparr>Response =
     [\<lparr>RegionIdentifiers_pb = [''CA'', ''US''],
       ContactTracingInfo =
         [\<lparr>DiagnosisStatus_pb = 1, VerificationAuthorityName_pb = ''AAA'',
           DiagnosisKeys =
             [\<lparr>DiagnosisKey_pb = [1], IntervalNumber_pb = 100, IntervalCount_pb = 144\<rparr>,
              \<lparr>DiagnosisKey_pb = [2], IntervalNumber_pb = 100, IntervalCount_pb = 144\<rparr>]\<rparr>]\<rparr>,
      \<lparr>RegionIdentifiers_pb = [''MX''],
       ContactTracingInfo =
         [\<lparr>DiagnosisStatus_pb = 1, VerificationAuthorityName_pb = ''AAA'',
           DiagnosisKeys =
             [\<lparr>DiagnosisKey_pb = [3], IntervalNumber_pb = 100, IntervalCount_pb = 144\<rparr>]\<rparr>]\<rparr>],
     FetchResponseKeyTimestamp = 7, PartialResponse = False, NextFetchToken = []\<rparr>) \<and>
   includedRecords asciiUpper exampleNames (mkRequest [] []) (listIterator cursorAt)
     (map okRecord [infUSCA, infCAUS, infMX], 0) 3 = [infUSCA, infCAUS, infMX] \<and>
   Max ((\<lambda>r. Unix (CreatedAt r)) ` set [infUSCA, infCAUS, infMX]) = 7"
proof -
  let ?rs = "[infUSCA, infCAUS, infMX]"
  let ?resp = "\<lparr>Response =
     [\<lparr>RegionIdentifiers_pb = [''CA'', ''US''],
       ContactTracingInfo =
         [\<lparr>DiagnosisStatus_pb = 1, VerificationAuthorityName_pb = ''AAA'',
           DiagnosisKeys =
             [\<lparr>DiagnosisKey_pb = [1], IntervalNumber_pb = 100, IntervalCount_pb = 144\<rparr>,
              \<lparr>DiagnosisKey_pb = [2], IntervalNumber_pb = 100, IntervalCount_pb = 144\<rparr>]\<rparr>]\<rparr>,
      \<lparr>RegionIdentifiers_pb = [''MX''],
       ContactTracingInfo =
         [\<lparr>DiagnosisStatus_pb = 1, VerificationAuthorityName_pb = ''AAA'',
           DiagnosisKeys =
             [\<lparr>DiagnosisKey_pb = [3], IntervalNumber_pb = 100, IntervalCount_pb = 144\<rparr>]\<rparr>]\<rparr>],
     FetchResponseKeyTimestamp = 7, PartialResponse = False, NextFetchToken = []\<rparr>"
  have inc: "includedRecords asciiUpper exampleNames (mkRequest [] []) (listIterator cursorAt)
     (map okRecord ?rs, 0) 3 = ?rs"
    by (simp add: includedRecords_def eligible_def skipReason_def example_defs
        uppercaseRegions_def includedRegions_def excludedRegions_def int32_def
        numeral_3_eq_3)
  have run: "runs neverDone (listIterator cursorAt) 0 (map okRecord ?rs, 0) 3"
    by (simp add: numeral_3_eq_3 neverDone_def listIterator_def okRecord_def)
  have stop: "\<not> runs neverDone (listIterator cursorAt) 0 (map okRecord ?rs, 0) (Suc 3)"
    by (simp add: numeral_3_eq_3 neverDone_def listIterator_def okRecord_def)
  have opened: "openList cursorAt (map okRecord ?rs)
      (criteria (uppercaseRegions asciiUpper (mkRequest [] [])) 0) =
      Inr (listIterator cursorAt, (map okRecord ?rs, 0))"
    by (simp add: openList_def)
  have res: "fetch asciiUpper exampleNames neverDone (mkRequest [] []) (openList cursorAt (map okRecord ?rs)) 0 =
      Some (Inr ?resp)"
    by (simp add: fetch_def loop.simps body_def example_defs fetch_defs fmt_d_def)
  have "Unix (CreatedAt infUSCA) = 5" "Unix (CreatedAt infCAUS) = 7" "Unix (CreatedAt infMX) = 6"
    by (simp_all add: example_defs Unix_def time_Unix_def)
  with watermark_is_maximum [of "openList cursorAt (map okRecord ?rs)" asciiUpper "mkRequest [] []" 0
      "listIterator cursorAt" "(map okRecord ?rs, 0)" neverDone 3 exampleNames ?resp]
    opened run stop inc res
  show ?thesis
    by simp
qed

text \<open>
  One record, created five seconds before the epoch: it is included, and the timestamp
  of the response is 0, not its creation time.
\<close>

theorem watermark_is_maximum_counterexample:
  "fetch asciiUpper exampleNames neverDone (mkRequest [] []) (openList cursorAt [okRecord infOld]) 0 =
   Some (Inr \<lparr>Response =
     [\<lparr>RegionIdentifiers_pb = [''US''],
       ContactTracingInfo =
         [\<lparr>DiagnosisStatus_pb = 1, VerificationAuthorityName_pb = ''AAA'',
           DiagnosisKeys =
             [\<lparr>DiagnosisKey_pb = [4], IntervalNumber_pb = 100, IntervalCount_pb = 144\<rparr>]\<rparr>]\<rparr>],
     FetchResponseKeyTimestamp = 0, PartialResponse = False, NextFetchToken = []\<rparr>) \<and>
   Unix (CreatedAt infOld) = - 5"
  by (simp add: fetch_def loop.simps body_def example_defs fetch_defs fmt_d_def)

text \<open>
  C10. The timestamp of a response is the greatest of 0 and the creation times of the
  records included, hence never negative. It starts at 0 and a record changes it only
  when its creation time is strictly greater; every record that passes the filter has
  its key in the response, whatever its creation time.
\<close>

theorem watermark_never_negative:
  assumes "itFunc (criteria (uppercaseRegions ToUpper req) fetchUntil) = Inr (it, s)"
    and "runs ctx it 0 s k" and "\<not> runs ctx it 0 s (Suc k)"
    and "fetch ToUpper names ctx req itFunc fetchUntil = Some (Inr resp)"
  shows "FetchResponseKeyTimestamp resp =
           Max (insert 0 ((\<lambda>r. Unix (CreatedAt r)) ` set (includedRecords ToUpper names req it s k))) \<and>
         0 \<le> FetchResponseKeyTimestamp resp \<and>
         (\<forall>a \<in> set (includedRecords ToUpper names req it s k).
            \<exists>x \<in> set (Response resp). \<exists>y \<in> set (ContactTracingInfo x).
              diagnosisKey_of a \<in> set (DiagnosisKeys y)) \<and>
         FetchResponseKeyTimestamp (response emptyCollator) = 0 \<and>
         FetchResponseKeyTimestamp (response (collate c infn)) =
           (if Unix (CreatedAt infn) > FetchResponseKeyTimestamp (response c)
            then Unix (CreatedAt infn) else FetchResponseKeyTimestamp (response c))"
proof (intro conjI ballI)
  show ts: "FetchResponseKeyTimestamp resp =
      Max (insert 0 ((\<lambda>r. Unix (CreatedAt r)) ` set (includedRecords ToUpper names req it s k)))"
    using fetch_response_fields(2) [OF assms] by (simp add: assembled_timestamp)
  show "0 \<le> FetchResponseKeyTimestamp resp"
    unfolding ts by (rule Max_ge) simp_all
  show "FetchResponseKeyTimestamp (response emptyCollator) = 0"
    by (simp add: emptyCollator_def emptyResponse_def)
  show "FetchResponseKeyTimestamp (response (collate c infn)) =
           (if Unix (CreatedAt infn) > FetchResponseKeyTimestamp (response c)
            then Unix (CreatedAt infn) else FetchResponseKeyTimestamp (response c))"
    by (rule collate_timestamp)
next
  fix a assume "a \<in> set (includedRecords ToUpper names req it s k)"
  from assembled_includes [OF this] fetch_response_fields(1) [OF assms]
  show "\<exists>x \<in> set (Response resp). \<exists>y \<in> set (ContactTracingInfo x).
          diagnosisKey_of a \<in> set (DiagnosisKeys y)"
    by auto
qed

text \<open>Two copies of a record created before the epoch, around one created at 6 seconds.\<close>

theorem watermark_never_negative_witness:
  "fetch asciiUpper exampleNames neverDone (mkRequest [] [])
     (openList cursorAt (map okRecord [infOld, infMX, infOld])) 0 =
   Some (Inr \<lparr>Response =
     [\<lparr>RegionIdentifiers_pb = [''US''],
       ContactTracingInfo =
         [\<lparr>DiagnosisStatus_pb = 1, VerificationAuthorityName_pb = ''AAA'',
           DiagnosisKeys =
             [\<lparr>DiagnosisKey_pb = [4], IntervalNumber_pb = 100, IntervalCount_pb = 144\<rparr>,
              \<lparr>DiagnosisKey_pb = [4], IntervalNumber_pb = 100, IntervalCount_pb = 144\<rparr>]\<rparr>]\<rparr>,
      \<lparr>RegionIdentifiers_pb = [''MX''],
       ContactTracingInfo =
         [\<lparr>DiagnosisStatus_pb = 1, VerificationAuthorityName_pb = ''AAA'',
           DiagnosisKeys =
             [\<lparr>DiagnosisKey_pb = [3], IntervalNumber_pb = 100, IntervalCount_pb = 144\<rparr>]\<rparr>]\<rparr>],
     FetchResponseKeyTimestamp = 6, PartialResponse = False, NextFetchToken = []\<rparr>) \<and>
   Max (insert 0 ((\<lambda>r. Unix (CreatedAt r)) ` set
     (includedRecords asciiUpper exampleNames (mkRequest [] []) (listIterator cursorAt)
        (map okRecord [infOld, infMX, infOld], 0) 3))) = 6"
proof -
  let ?rs = "[infOld, infMX, infOld]"
  let ?resp = "\<lparr>Response =
     [\<lparr>RegionIdentifiers_pb = [''US''],
       ContactTracingInfo =
         [\<lparr>DiagnosisStatus_pb = 1, VerificationAuthorityName_pb = ''AAA'',
           DiagnosisKeys =
             [\<lparr>DiagnosisKey_pb = [4], IntervalNumber_pb = 100, IntervalCount_pb = 144\<rparr>,
              \<lparr>DiagnosisKey_pb = [4], IntervalNumber_pb = 100, IntervalCount_pb = 144\<rparr>]\<rparr>]\<rparr>,
      \<lparr>RegionIdentifiers_pb = [''MX''],
       ContactTracingInfo =
         [\<lparr>DiagnosisStatus_pb = 1, VerificationAuthorityName_pb = ''AAA'',
           DiagnosisKeys =
             [\<lparr>DiagnosisKey_pb = [3], IntervalNumber_pb = 100, IntervalCount_pb = 144\<rparr>]\<rparr>]\<rparr>],
     FetchResponseKeyTimestamp = 6, PartialResponse = False, NextFetchToken = []\<rparr>"
  have run: "runs neverDone (listIterator cursorAt) 0 (map okRecord ?rs, 0) 3"
    by (simp add: numeral_3_eq_3 neverDone_def listIterator_def okRecord_def)
  have stop: "\<not> runs neverDone (listIterator cursorAt) 0 (map okRecord ?rs, 0) (Suc 3)"
    by (simp add: numeral_3_eq_3 neverDone_def listIterator_def okRecord_def)
  have opened: "openList cursorAt (map okRecord ?rs)
      (criteria (uppercaseRegions asciiUpper (mkRequest [] [])) 0) =
      Inr (listIterator cursorAt, (map okRecord ?rs, 0))"
    by (simp add: openList_def)
  have res: "fetch asciiUpper exampleNames neverDone (mkRequest [] []) (openList cursorAt (map okRecord ?rs)) 0 =
      Some (Inr ?resp)"
    by (simp add: fetch_def loop.simps body_def example_defs fetch_defs fmt_d_def)
  from watermark_never_negative [of "openList cursorAt (map okRecord ?rs)" asciiUpper "mkRequest [] []" 0
      "listIterator cursorAt" "(map okRecord ?rs, 0)" neverDone 3 exampleNames ?resp]
    opened run stop res
  show ?thesis
    by simp
qed

section \<open>Counting the keys\<close>

lemma keysOf_append: "keysOf (xs @ ys) = keysOf xs @ keysOf ys"
  by (simp add: keysOf_def)

lemma keysOf_update:
  assumes "p < length xs"
  shows "keysOf (xs[p := x]) =
         keysOf (take p xs) @ concat (map DiagnosisKeys (ContactTracingInfo x)) @
         keysOf (drop (Suc p) xs)"
    and "keysOf xs =
         keysOf (take p xs) @ concat (map DiagnosisKeys (ContactTracingInfo (xs ! p))) @
         keysOf (drop (Suc p) xs)"
proof -
  from assms have "xs[p := x] = take p xs @ x # drop (Suc p) xs"
    by (rule upd_conv_take_nth_drop)
  then show "keysOf (xs[p := x]) =
         keysOf (take p xs) @ concat (map DiagnosisKeys (ContactTracingInfo x)) @
         keysOf (drop (Suc p) xs)"
    by (simp add: keysOf_def)
  from assms have "xs = take p xs @ xs ! p # drop (Suc p) xs"
    by (rule id_take_nth_drop)
  then have "keysOf xs = keysOf (take p xs @ xs ! p # drop (Suc p) xs)" by simp
  then show "keysOf xs =
         keysOf (take p xs) @ concat (map DiagnosisKeys (ContactTracingInfo (xs ! p))) @
         keysOf (drop (Suc p) xs)"
    by (simp add: keysOf_def)
qed

lemma keysOf_addCtr: "keysOf (addCtr g xs) = keysOf xs"
  by (simp add: addCtr_def keysOf_def)

lemma keysOf_addCti: "p0 < length xs \<Longrightarrow> keysOf (addCti p0 i xs) = keysOf xs"
  using keysOf_update [of p0 xs] by (simp add: addCti_def)

lemma concat_keys_update:
  assumes "j < length ys"
  shows "mset (concat (map DiagnosisKeys
           (ys[j := (ys ! j)\<lparr>DiagnosisKeys := DiagnosisKeys (ys ! j) @ [d]\<rparr>]))) =
         add_mset d (mset (concat (map DiagnosisKeys ys)))"
proof -
  let ?y = "(ys ! j)\<lparr>DiagnosisKeys := DiagnosisKeys (ys ! j) @ [d]\<rparr>"
  from assms have "ys[j := ?y] = take j ys @ ?y # drop (Suc j) ys"
    by (rule upd_conv_take_nth_drop)
  moreover from assms have "ys = take j ys @ ys ! j # drop (Suc j) ys"
    by (rule id_take_nth_drop)
  then have "concat (map DiagnosisKeys ys) =
      concat (map DiagnosisKeys (take j ys @ ys ! j # drop (Suc j) ys))"
    by simp
  ultimately show ?thesis by simp
qed

lemma keysOf_addKey:
  assumes "fst q < length xs" and "snd q < length (ContactTracingInfo (xs ! fst q))"
  shows "mset (keysOf (addKey q d xs)) = add_mset d (mset (keysOf xs))"
proof -
  let ?x = "(xs ! fst q)\<lparr>ContactTracingInfo :=
       (ContactTracingInfo (xs ! fst q))[snd q :=
         (ContactTracingInfo (xs ! fst q) ! snd q)\<lparr>DiagnosisKeys :=
            DiagnosisKeys (ContactTracingInfo (xs ! fst q) ! snd q) @ [d]\<rparr>]\<rparr>"
  have a: "keysOf (addKey q d xs) =
      keysOf (take (fst q) xs) @ concat (map DiagnosisKeys (ContactTracingInfo ?x)) @
      keysOf (drop (Suc (fst q)) xs)"
    unfolding addKey_def by (rule keysOf_update(1) [OF assms(1)])
  have b: "keysOf xs =
      keysOf (take (fst q) xs) @
      concat (map DiagnosisKeys (ContactTracingInfo (xs ! fst q))) @
      keysOf (drop (Suc (fst q)) xs)"
    by (rule keysOf_update(2) [OF assms(1)])
  note c = concat_keys_update [OF assms(2), of d]
  have "mset (keysOf (addKey q d xs)) =
      mset (keysOf (take (fst q) xs)) +
      add_mset d (mset (concat (map DiagnosisKeys (ContactTracingInfo (xs ! fst q))))) +
      mset (keysOf (drop (Suc (fst q)) xs))"
    unfolding a by (simp add: c)
  also have "\<dots> = add_mset d (mset (keysOf xs))"
    by (subst b) simp
  finally show ?thesis .
qed

lemma keysOf_collate:
  assumes w: "wf3 (ctrMap c) (ctiMap c) (ctrs c)"
  shows "mset (keysOf (ctrs (collate c r))) = add_mset (diagnosisKey_of r) (mset (keysOf (ctrs c)))"
proof (cases "ctrMap c (ctrKey_of r)")
  case None
  note ctrNone = None
  show ?thesis
  proof (cases "ctiMap c (ctiKey_of r)")
    case None
    show ?thesis
      unfolding collate_new_new(3) [OF ctrNone None]
      by (subst keysOf_addKey)
        (simp_all add: addCti_obs addCtr_obs keysOf_addCti keysOf_addCtr
          length_infosAt [symmetric])
  next
    case (Some q)
    from wf3D(4,5) [OF w, of "ctiKey_of r" "fst q" "snd q"] Some
    have "fst q < length (ctrs c)" "snd q < length (infosAt (ctrs c) (fst q))"
      by simp_all
    then show ?thesis
      unfolding collate_new_found(3) [OF ctrNone Some]
      by (subst keysOf_addKey)
        (simp_all add: addCtr_obs keysOf_addCtr length_infosAt [symmetric])
  qed
next
  case (Some p0)
  note ctrSome = Some
  from wf3D(1) [OF w ctrSome] have p0: "p0 < length (ctrs c)" .
  show ?thesis
  proof (cases "ctiMap c (ctiKey_of r)")
    case None
    show ?thesis
      unfolding collate_found_new(3) [OF ctrSome None]
      using p0
      by (subst keysOf_addKey)
        (simp_all add: addCti_obs keysOf_addCti length_infosAt [symmetric])
  next
    case (Some q)
    from wf3D(4,5) [OF w, of "ctiKey_of r" "fst q" "snd q"] Some
    have "fst q < length (ctrs c)" "snd q < length (infosAt (ctrs c) (fst q))"
      by simp_all
    then show ?thesis
      unfolding collate_found_found(3) [OF ctrSome Some]
      by (subst keysOf_addKey) (simp_all add: length_infosAt [symmetric])
  qed
qed

lemma allKeys_assembled: "mset (allKeys (assembled rs)) = mset (map diagnosisKey_of rs)"
proof (induction rs rule: rev_induct)
  case Nil
  show ?case
    by (simp add: allKeys_def assembled_def collateAll_Nil emptyCollator_def emptyResponse_def
        keysOf_def)
next
  case (snoc r rs)
  from grouped_collateAll [of rs] have "wf3 (ctrMap (collateAll emptyCollator rs))
      (ctiMap (collateAll emptyCollator rs)) (ctrs (collateAll emptyCollator rs))"
    by (simp add: grouped_def)
  from keysOf_collate [OF this, of r] snoc.IH show ?case
    by (simp add: allKeys_def assembled_def collateAll_snoc ctrs_def)
qed

lemma count_list_map_filter:
  "P a \<Longrightarrow> count_list xs a \<le> count_list (map f (filter P xs)) (f a)"
  by (induction xs) auto

section \<open>Entries and infos are unique\<close>

lemma assembled_distinct_ctr: "distinct (map ctrKey_pb (Response (assembled rs)))"
proof -
  let ?c = "collateAll emptyCollator rs" and ?xs = "Response (assembled rs)"
  from assembled_grouped [of rs] have w: "wf3 (ctrMap ?c) (ctiMap ?c) ?xs"
    by (simp add: grouped_def)
  show ?thesis
    unfolding distinct_conv_nth
  proof (intro allI impI)
    fix p q assume "p < length (map ctrKey_pb ?xs)" "q < length (map ctrKey_pb ?xs)" "p \<noteq> q"
    then have p: "p < length ?xs" and q: "q < length ?xs" and ne: "p \<noteq> q" by simp_all
    from wf3D(3) [OF w p] wf3D(3) [OF w q] ne
    have "keyAt ?xs p \<noteq> keyAt ?xs q" by auto
    with p q show "map ctrKey_pb ?xs ! p \<noteq> map ctrKey_pb ?xs ! q"
      by (simp add: keyAt_nth)
  qed
qed

lemma assembled_distinct_cti:
  assumes "x \<in> set (Response (assembled rs))"
  shows "distinct (map info_pb (ContactTracingInfo x))"
proof -
  let ?c = "collateAll emptyCollator rs" and ?xs = "Response (assembled rs)"
  from assembled_grouped [of rs] have w: "wf3 (ctrMap ?c) (ctiMap ?c) ?xs"
    by (simp add: grouped_def)
  from assms obtain p where p: "p < length ?xs" and x: "x = ?xs ! p"
    by (auto simp add: in_set_conv_nth)
  show ?thesis
    unfolding distinct_conv_nth
  proof (intro allI impI)
    fix i j
    assume "i < length (map info_pb (ContactTracingInfo x))"
      "j < length (map info_pb (ContactTracingInfo x))" "i \<noteq> j"
    then have i: "i < length (infosAt ?xs p)" and j: "j < length (infosAt ?xs p)"
      and ne: "i \<noteq> j"
      using x by (simp_all add: infosAt_def)
    from wf3D(7) [OF w p i] wf3D(7) [OF w p j] ne
    have "ctiKeyAt ?xs p i \<noteq> ctiKeyAt ?xs p j" by auto
    then have "infosAt ?xs p ! i \<noteq> infosAt ?xs p ! j"
      by (auto simp add: ctiKeyAt_def)
    with x show "map info_pb (ContactTracingInfo x) ! i \<noteq> map info_pb (ContactTracingInfo x) ! j"
      by (simp add: infosAt_def)
  qed
qed

lemma sort_Strings_idem: "sort_Strings (sort_Strings xs) = sort_Strings xs"
  by (simp add: sort_Strings_def sorted_sort_id)

lemma sort_Strings_mset: "mset xs = mset ys \<Longrightarrow> sort_Strings xs = sort_Strings ys"
  unfolding sort_Strings_def
  by (rule properties_for_sort) simp_all

lemma assembled_sorted:
  assumes "x \<in> set (Response (assembled rs))"
  shows "sort_Strings (RegionIdentifiers_pb x) = RegionIdentifiers_pb x"
proof -
  from assms have "RegionIdentifiers_pb x \<in> set (map RegionIdentifiers_pb (Response (assembled rs)))"
    by simp
  then have "RegionIdentifiers_pb x \<in>
      set (map (\<lambda>r. sort_Strings (Regions r)) (firstOf ctrKey_of rs))"
    by (simp only: assembled_regions)
  then have "RegionIdentifiers_pb x \<in>
      (\<lambda>r. sort_Strings (Regions r)) ` set (firstOf ctrKey_of rs)"
    by (simp only: set_map)
  then obtain r where "RegionIdentifiers_pb x = sort_Strings (Regions r)"
    and "r \<in> set (firstOf ctrKey_of rs)" ..
  then show ?thesis by (simp add: sort_Strings_idem)
qed

lemma assembled_lands_own:
  assumes a: "a \<in> set rs" and nc: "noCollision rs"
  shows "\<exists>x \<in> set (Response (assembled rs)).
           ctrKey_pb x = ctrKey_of a \<and>
           (\<exists>y \<in> set (ContactTracingInfo x). diagnosisKey_of a \<in> set (DiagnosisKeys y))"
proof -
  from assembled_lands [OF a] obtain x y where x: "x \<in> set (Response (assembled rs))"
    and y: "y \<in> set (ContactTracingInfo x)" and k: "ctiKey_pb x y = ctiKey_of a"
    by blast
  from y have "info_pb y \<in> set (map info_pb (ContactTracingInfo x))" by simp
  then have "info_pb y \<in> set (map info_of
      (filter (\<lambda>r. ctrKey_of r = ctrKey_pb x) (firstOf ctiKey_of rs)))"
    by (simp only: assembled_infos [OF x])
  then have "info_pb y \<in> info_of `
      set (filter (\<lambda>r. ctrKey_of r = ctrKey_pb x) (firstOf ctiKey_of rs))"
    by (simp only: set_map)
  then obtain r where ri': "info_pb y = info_of r"
    and rf: "r \<in> set (filter (\<lambda>r. ctrKey_of r = ctrKey_pb x) (firstOf ctiKey_of rs))" ..
  from rf have r: "r \<in> set (firstOf ctiKey_of rs)" and rk: "ctrKey_of r = ctrKey_pb x"
    by simp_all
  from ri' have ri: "info_of r = info_pb y" by simp
  from r set_firstOf [of ctiKey_of rs] have rin: "r \<in> set rs" by blast
  have "ctiKey_of r = Sprintf_ctiKey (ctrKey_of r) (fst (info_of r)) (snd (info_of r))"
    by (simp add: ctiKey_of_info)
  also have "\<dots> = ctiKey_pb x y"
    unfolding rk ri by (simp add: ctiKey_pb_def info_pb_def)
  finally have same: "ctiKey_of r = ctiKey_of a"
    using k by (rule trans)
  from nc have "\<forall>a \<in> set rs. \<forall>b \<in> set rs.
      ctiKey_of a = ctiKey_of b \<longrightarrow> ctrKey_of a = ctrKey_of b"
    by (simp only: noCollision_def)
  with rin a same have "ctrKey_of r = ctrKey_of a"
    by blast
  with rk have "ctrKey_pb x = ctrKey_of a" by (rule subst)
  moreover from assembled_keys [OF x y] k a
  have "diagnosisKey_of a \<in> set (DiagnosisKeys y)" by auto
  ultimately show ?thesis using x y by blast
qed

lemma assembled_same_ctr:
  assumes a: "a \<in> set rs" and b: "b \<in> set rs" and nc: "noCollision rs"
    and m: "mset (Regions a) = mset (Regions b)"
  shows "\<exists>x \<in> set (Response (assembled rs)).
           ctrKey_pb x = ctrKey_of a \<and>
           (\<exists>y \<in> set (ContactTracingInfo x). diagnosisKey_of a \<in> set (DiagnosisKeys y)) \<and>
           (\<exists>y \<in> set (ContactTracingInfo x). diagnosisKey_of b \<in> set (DiagnosisKeys y))"
proof -
  from sort_Strings_mset [OF m] have kk: "ctrKey_of a = ctrKey_of b"
    by (simp add: ctrKey_of_def)
  from assembled_lands_own [OF a nc] obtain x where x: "x \<in> set (Response (assembled rs))"
    and xk: "ctrKey_pb x = ctrKey_of a"
    and xa: "\<exists>y \<in> set (ContactTracingInfo x). diagnosisKey_of a \<in> set (DiagnosisKeys y)"
    by blast
  from assembled_lands_own [OF b nc] obtain x' where x': "x' \<in> set (Response (assembled rs))"
    and xk': "ctrKey_pb x' = ctrKey_of b"
    and xb: "\<exists>y \<in> set (ContactTracingInfo x'). diagnosisKey_of b \<in> set (DiagnosisKeys y)"
    by blast
  from assembled_distinct_ctr [of rs] have inj: "inj_on ctrKey_pb (set (Response (assembled rs)))"
    by (simp add: distinct_map)
  have "ctrKey_pb x' = ctrKey_pb x"
    unfolding xk xk' kk by (rule refl)
  from inj_onD [OF inj this x' x] have "x' = x" .
  with x xk xa xb show ?thesis by blast
qed

end
